theory Spec2Isabelle
  imports Main
begin

section \<open>Python strings and containers used by the generators\<close>

text \<open>
  The generators are Python 2 scripts working on byte strings. The helpers below are the
  string methods they call: \<^verbatim>\<open>str.strip()\<close>, \<^verbatim>\<open>str.split(sep)\<close> for a one-character
  separator, \<^verbatim>\<open>sep.join(xs)\<close> and \<^verbatim>\<open>str.replace(old, new)\<close>.
\<close>

definition py_isspace :: "char \<Rightarrow> bool" where
  "py_isspace c = (c \<in> set [CHR '' '', CHR 0x09, CHR 0x0A, CHR 0x0B, CHR 0x0C, CHR 0x0D])"

definition py_strip :: "string \<Rightarrow> string" where
  "py_strip s = rev (dropWhile py_isspace (rev (dropWhile py_isspace s)))"

fun py_split :: "char \<Rightarrow> string \<Rightarrow> string list" where
  "py_split sep [] = [[]]"
| "py_split sep (c # cs) =
     (if c = sep then [] # py_split sep cs
      else (case py_split sep cs of [] \<Rightarrow> [[c]] | w # ws \<Rightarrow> (c # w) # ws))"

fun py_join :: "string \<Rightarrow> string list \<Rightarrow> string" where
  "py_join sep [] = []"
| "py_join sep [x] = x"
| "py_join sep (x # y # ys) = x @ sep @ py_join sep (y # ys)"

text \<open>
  \<^verbatim>\<open>s.replace(old, new)\<close> replaces the non-overlapping occurrences of \<open>old\<close> from the left.
  \<open>replace_from\<close> walks the string once; its counter is the number of characters of a
  matched occurrence still to be dropped.
\<close>

fun replace_from :: "string \<Rightarrow> string \<Rightarrow> nat \<Rightarrow> string \<Rightarrow> string" where
  "replace_from old new k [] = []"
| "replace_from old new (Suc k) (c # cs) = replace_from old new k cs"
| "replace_from old new 0 (c # cs) =
     (if take (length old) (c # cs) = old
      then new @ replace_from old new (length old - 1) cs
      else c # replace_from old new 0 cs)"

definition py_replace :: "string \<Rightarrow> string \<Rightarrow> string \<Rightarrow> string" where
  "py_replace s old new =
     (if old = [] then new @ concat (map (\<lambda>c. c # new) s) else replace_from old new 0 s)"

text \<open>\<^verbatim>\<open>str(n)\<close> for a non-negative integer and \<^verbatim>\<open>str(b)\<close> for a boolean.\<close>

fun digits :: "nat \<Rightarrow> nat \<Rightarrow> string" where
  "digits 0 n = []"
| "digits (Suc f) n =
     (if n < 10 then [char_of (48 + n)] else digits f (n div 10) @ [char_of (48 + n mod 10)])"

definition str_nat :: "nat \<Rightarrow> string" where
  "str_nat n = digits (Suc n) n"

definition str_bool :: "bool \<Rightarrow> string" where
  "str_bool b = (if b then ''True'' else ''False'')"

definition lower_bool :: "bool \<Rightarrow> string" where
  "lower_bool b = (if b then ''true'' else ''false'')"

text \<open>An \<^verbatim>\<open>OrderedDict\<close> is an association list in insertion order with unique keys.\<close>

type_synonym 'v odict = "(string \<times> 'v) list"

fun od_set :: "string \<Rightarrow> 'v \<Rightarrow> 'v odict \<Rightarrow> 'v odict" where
  "od_set k v [] = [(k, v)]"
| "od_set k v ((k', v') # kvs) = (if k' = k then (k, v) # kvs else (k', v') # od_set k v kvs)"

datatype json = JNull | JBool bool | JStr string | JList "json list" | JObj "json odict"

datatype error = KeyError | TypeError | ParseError | StructuralError | StaleReference


section \<open>The specialization model\<close>

text \<open>
  The classes of \<^verbatim>\<open>utils_model\<close> are not part of the generators. The datatypes below carry
  the attributes the generators read, under the attribute names of the source, with
  \<open>ident\<close> standing for the identity of the Python object (the key of the caches).
  An optional attribute (\<^verbatim>\<open>url\<close>, an absent \<^verbatim>\<open>enum\<close>, a \<^verbatim>\<open>None\<close> description or parent)
  is an \<open>option\<close>. Back-references (\<^verbatim>\<open>root_topic\<close>, \<^verbatim>\<open>owner\<close>, \<^verbatim>\<open>parent\<close>, \<^verbatim>\<open>enum.detail\<close>)
  are the identity of the node referred to.
\<close>

datatype enum_choice = EnumChoice
  (ec_ident: nat) (ec_id: string) (ec_name: string) (ec_description: "string option")
  (ec_value: string) (ec_type_key: string) (ec_url: "string option") (ec_enum_detail: nat)

datatype enum = Enum
  (e_name: string) (e_description: "string option") (e_is_open: bool) (e_detail: nat)
  (e_choices: "enum_choice list")

datatype property = Property
  (p_ident: nat) (p_id: string) (p_name: string) (p_description: "string option")
  (p_cardinality: string) (p_typeof: string) (p_was_injected: bool) (p_enum: "enum option")
  (p_root_topic: nat) (p_owner: nat) (p_type_key: string) (p_url: "string option")

datatype property_set = PropertySet
  (ps_ident: nat) (ps_id: string) (ps_name: string) (ps_description: "string option")
  (ps_are_cim_properties: bool) (ps_owner: nat) (ps_type_key: string)
  (ps_url: "string option") (ps_properties: "property list")

datatype topic = Topic
  (t_ident: nat) (t_id: string) (t_name: string) (t_description: "string option")
  (t_contact: string) (t_authors: string) (t_contributors: string)
  (t_change_history: "(string \<times> string \<times> string \<times> string) list")
  (t_type_key: string) (t_url: "string option") (t_parent: "nat option")
  (t_properties: "property list") (t_property_sets: "property_set list")
  (t_sub_topics: "topic list")


section \<open>Tree Form: \<^verbatim>\<open>generate_js.Generator\<close>\<close>

text \<open>
  The generator holds its root and the fragment cache \<^verbatim>\<open>_maps\<close>, keyed by node identity.
  \<^verbatim>\<open>get_label\<close> (of \<^verbatim>\<open>utils\<close>) is a parameter of every handler that formats a label.
\<close>

record js_generator =
  js_root :: topic
  maps :: "nat \<rightharpoonup> json odict"

definition js_init :: "topic \<Rightarrow> js_generator" where
  "js_init root = \<lparr>js_root = root, maps = Map.empty\<rparr>"

definition json_opt :: "string option \<Rightarrow> json" where
  "json_opt d = (case d of None \<Rightarrow> JNull | Some s \<Rightarrow> JStr s)"

definition get_change :: "string \<times> string \<times> string \<times> string \<Rightarrow> json" where
  "get_change i = (case i of (v, d, a, n) \<Rightarrow>
     JObj [(''version'', JStr v), (''date'', JStr d), (''author'', JStr a), (''note'', JStr n)])"

definition root_fragment :: "(string \<Rightarrow> string) \<Rightarrow> topic \<Rightarrow> json odict" where
  "root_fragment get_label root =
     [(''id'', JStr (t_id root)),
      (''label'', JStr (get_label (t_name root))),
      (''description'', json_opt (t_description root)),
      (''contact'', JStr (t_contact root)),
      (''authors'', JList (map (\<lambda>i. JStr (py_strip i)) (py_split CHR '','' (t_authors root)))),
      (''contributors'',
         JList (map (\<lambda>i. JStr (py_strip i)) (py_split CHR '','' (t_contributors root)))),
      (''project'', JStr ''cordex''),
      (''changeHistory'', JList (map get_change (t_change_history root))),
      (''subTopics'', JList [])]"

definition js_on_root_parse ::
  "(string \<Rightarrow> string) \<Rightarrow> topic \<Rightarrow> js_generator \<Rightarrow> error + js_generator" where
  "js_on_root_parse get_label root g =
     Inr (g\<lparr>maps := (maps g)(t_ident root \<mapsto> root_fragment get_label root)\<rparr>)"

definition topic_fragment :: "(string \<Rightarrow> string) \<Rightarrow> topic \<Rightarrow> json odict" where
  "topic_fragment get_label topic =
     [(''id'', JStr (t_id topic)),
      (''label'', JStr (get_label (t_name topic))),
      (''description'', json_opt (t_description topic)),
      (''contact'', JStr (t_contact topic)),
      (''properties'', JList [])]"

definition js_on_topic_parse ::
  "(string \<Rightarrow> string) \<Rightarrow> topic \<Rightarrow> js_generator \<Rightarrow> error + js_generator" where
  "js_on_topic_parse get_label topic g =
     Inr (g\<lparr>maps := (maps g)(t_ident topic \<mapsto> topic_fragment get_label topic)\<rparr>)"

definition get_enum :: "(string \<Rightarrow> string) \<Rightarrow> enum \<Rightarrow> json" where
  "get_enum get_label enum =
     JObj [(''id'', json_opt (e_description enum)),
           (''label'', JStr (get_label (e_name enum))),
           (''description'', json_opt (e_description enum)),
           (''is_open'', JBool (e_is_open enum)),
           (''choices'',
              JList (map (\<lambda>choice. JObj [(''description'', json_opt (ec_description choice)),
                                          (''value'', JStr (ec_value choice))])
                         (e_choices enum)))]"

definition property_fragment :: "(string \<Rightarrow> string) \<Rightarrow> property \<Rightarrow> json odict" where
  "property_fragment get_label prop =
     [(''id'', JStr (p_id prop)),
      (''label'',
         JStr (py_join '' > '' (map get_label (drop 3 (py_split CHR ''.'' (p_id prop)))))),
      (''description'', json_opt (p_description prop)),
      (''cardinality'', JStr (p_cardinality prop)),
      (''type'', JStr (case p_enum prop of Some e \<Rightarrow> ''enum'' | None \<Rightarrow> p_typeof prop)),
      (''is_cim_property'', JBool (p_was_injected prop))]
     @ (case p_enum prop of Some e \<Rightarrow> [(''enum'', get_enum get_label e)] | None \<Rightarrow> [])"

text \<open>
  \<^verbatim>\<open>self._maps[key][field].append(objs)\<close>: a \<^verbatim>\<open>KeyError\<close> when the cache has no fragment
  for the key or the fragment has no such field.
\<close>

definition append_to ::
  "nat \<Rightarrow> string \<Rightarrow> json list \<Rightarrow> js_generator \<Rightarrow> error + js_generator" where
  "append_to key field objs g =
     (case maps g key of
        None \<Rightarrow> Inl KeyError
      | Some frag \<Rightarrow>
          (case map_of frag field of
             None \<Rightarrow> Inl KeyError
           | Some (JList xs) \<Rightarrow>
               Inr (g\<lparr>maps := (maps g)(key \<mapsto> od_set field (JList (xs @ objs)) frag)\<rparr>)
           | Some _ \<Rightarrow> Inl TypeError))"

definition js_on_property_parse ::
  "(string \<Rightarrow> string) \<Rightarrow> property \<Rightarrow> js_generator \<Rightarrow> error + js_generator" where
  "js_on_property_parse get_label prop g =
     append_to (p_root_topic prop) ''properties'' [JObj (property_fragment get_label prop)] g"

text \<open>
  On root exit the fragments of \<^verbatim>\<open>self.root.sub_topics\<close> are first collected (a missing
  one is a \<^verbatim>\<open>KeyError\<close>) and then appended to the \<^verbatim>\<open>subTopics\<close> of the root's fragment;
  with no sub-topic the loop body, and so the lookup of the root's fragment, never runs.
\<close>

definition js_on_root_parsed :: "topic \<Rightarrow> js_generator \<Rightarrow> error + js_generator" where
  "js_on_root_parsed root g =
     (case those (map (\<lambda>i. maps g (t_ident i)) (t_sub_topics (js_root g))) of
        None \<Rightarrow> Inl KeyError
      | Some objs \<Rightarrow>
          if objs = [] then Inr g else append_to (t_ident root) ''subTopics'' (map JObj objs) g)"

text \<open>
  \<^verbatim>\<open>get_output\<close> serializes the root's fragment with \<^verbatim>\<open>json.dumps\<close> and substitutes it for
  \<^verbatim>\<open>TOPIC\<close> in the template file; the serializer and the template text are parameters.
\<close>

definition js_get_output ::
  "(json \<Rightarrow> string) \<Rightarrow> string \<Rightarrow> js_generator \<Rightarrow> error + string" where
  "js_get_output dumps template g =
     (case maps g (t_ident (js_root g)) of
        None \<Rightarrow> Inl KeyError
      | Some frag \<Rightarrow> Inr (py_replace template ''TOPIC'' (dumps (JObj frag))))"


section \<open>Traversal events\<close>

text \<open>
  The generators are event sinks of the traversal engine: each constructor below is one
  of the handler methods the two generators define (\<^verbatim>\<open>on_root_parse\<close>,
  \<^verbatim>\<open>on_root_parsed\<close>, \<^verbatim>\<open>on_grid_parse\<close>, ...), carrying the node the engine passes.
\<close>

datatype event =
    RootParse topic
  | RootParsed topic
  | GridParse topic
  | KeypropsParse topic
  | ProcessParse topic
  | SubprocessParse topic
  | PropertySetParse property_set
  | PropertyParse property
  | EnumChoiceParse enum_choice

definition and_then :: "error + 'a \<Rightarrow> ('a \<Rightarrow> error + 'b) \<Rightarrow> error + 'b" where
  "and_then r f = (case r of Inl e \<Rightarrow> Inl e | Inr x \<Rightarrow> f x)"

text \<open>A run delivers the events in order and stops at the first exception.\<close>

fun run_events :: "(event \<Rightarrow> 'g \<Rightarrow> error + 'g) \<Rightarrow> event list \<Rightarrow> 'g \<Rightarrow> error + 'g" where
  "run_events handle [] g = Inr g"
| "run_events handle (ev # evs) g = and_then (handle ev g) (run_events handle evs)"

text \<open>
  The Tree Form generator binds \<^verbatim>\<open>on_grid_parse\<close>, \<^verbatim>\<open>on_keyprops_parse\<close> and
  \<^verbatim>\<open>on_process_parse\<close> to \<^verbatim>\<open>on_topic_parse\<close> and defines no handler for sub-processes,
  property sets and enum choices.
\<close>

fun js_handle :: "(string \<Rightarrow> string) \<Rightarrow> event \<Rightarrow> js_generator \<Rightarrow> error + js_generator" where
  "js_handle get_label (RootParse root) g = js_on_root_parse get_label root g"
| "js_handle get_label (RootParsed root) g = js_on_root_parsed root g"
| "js_handle get_label (GridParse topic) g = js_on_topic_parse get_label topic g"
| "js_handle get_label (KeypropsParse topic) g = js_on_topic_parse get_label topic g"
| "js_handle get_label (ProcessParse topic) g = js_on_topic_parse get_label topic g"
| "js_handle get_label (PropertyParse prop) g = js_on_property_parse get_label prop g"
| "js_handle get_label (SubprocessParse topic) g = Inr g"
| "js_handle get_label (PropertySetParse prop_set) g = Inr g"
| "js_handle get_label (EnumChoiceParse choice) g = Inr g"


section \<open>Graph Form: \<^verbatim>\<open>generate_mm.Generator\<close>\<close>

subsection \<open>Element trees\<close>

text \<open>
  An \<^verbatim>\<open>ElementTree\<close> element has a tag, attributes, text and children. The generator
  only ever appends children, so a reference to an element is the path of child indices
  leading to it from the \<^verbatim>\<open>map\<close> element: it denotes the same element for a whole run.
  \<open>elem_at\<close> dereferences a path and \<open>add_child\<close> appends a child to the element at a
  path; a path that leads nowhere is a \<open>StaleReference\<close> in \<open>append_element\<close> below, and
  \<open>add_child\<close> is only applied to a path that \<open>elem_at\<close> has dereferenced.
\<close>

datatype xml = Element (tag: string) (attrib: "(string \<times> string) list") (content: string)
  (children: "xml list")

fun elem_at :: "nat list \<Rightarrow> xml \<Rightarrow> xml option" where
  "elem_at [] t = Some t"
| "elem_at (i # p) t = (if i < length (children t) then elem_at p (children t ! i) else None)"

fun add_child :: "nat list \<Rightarrow> xml \<Rightarrow> xml \<Rightarrow> xml" where
  "add_child [] e t = Element (tag t) (attrib t) (content t) (children t @ [e])"
| "add_child (i # p) e t =
     Element (tag t) (attrib t) (content t) ((children t)[i := add_child p e (children t ! i)])"

subsection \<open>Configuration\<close>

record style =
  bg_color :: string
  font_bold :: bool
  font_color :: string
  font_name :: string
  font_size :: nat
  is_collapsed :: bool
  cfg_description :: string

definition CONFIG :: "(string \<times> style) list" where
  "CONFIG =
    [(''model'',
        \<lparr>bg_color = ''#F5A9BC'', font_bold = True, font_color = ''#000000'',
         font_name = ''courier'', font_size = 14, is_collapsed = False,
         cfg_description = ''A model component.''\<rparr>),
     (''realm'',
        \<lparr>bg_color = ''#66cc00'', font_bold = True, font_color = ''#000000'',
         font_name = ''courier'', font_size = 14, is_collapsed = False,
         cfg_description = ''Scientific area of a numerical model.''\<rparr>),
     (''grid'',
        \<lparr>bg_color = ''#ccccff'', font_bold = True, font_color = ''#000000'',
         font_name = ''courier'', font_size = 12, is_collapsed = False,
         cfg_description =
           ''The grid used to layout the variables (e.g. the Global ENDGAME-grid).''\<rparr>),
     (''keyprops'',
        \<lparr>bg_color = ''#ffff66'', font_bold = True, font_color = ''#000000'',
         font_name = ''courier'', font_size = 12, is_collapsed = False,
         cfg_description =
           ''Realm key properties which differ from model defaults (grid, timestep etc).''\<rparr>),
     (''process'',
        \<lparr>bg_color = ''#FFFFFF'', font_bold = True, font_color = ''#000000'',
         font_name = ''courier'', font_size = 12, is_collapsed = False,
         cfg_description = ''Process simulated within the realm.''\<rparr>),
     (''subprocess'',
        \<lparr>bg_color = ''#ACF0F2'', font_bold = True, font_color = ''#000000'',
         font_name = ''courier'', font_size = 12, is_collapsed = False,
         cfg_description = ''A sub-process simulated within a realm process.''\<rparr>),
     (''property-set'',
        \<lparr>bg_color = ''#F3FFE2'', font_bold = True, font_color = ''#000000'',
         font_name = ''courier'', font_size = 10, is_collapsed = True,
         cfg_description =
           ''Provides details of specific properties of a process, sub-process, key properties, etc.  There are two possible specialisations expected: (1) A detail_vocabulary is identified, and a cardinality is assigned to that for possible responses; (2) Detail is used to provide a collection or a set of properties which are defined in the sub-class.''\<rparr>),
     (''property'',
        \<lparr>bg_color = ''#C9D787'', font_bold = True, font_color = ''#000000'',
         font_name = ''courier'', font_size = 10, is_collapsed = True,
         cfg_description =
           ''A property associated with a detail defined as a 4 member tuple: name, type, cardinality, description.''\<rparr>),
     (''enum-choice'',
        \<lparr>bg_color = ''#FFFFFF'', font_bold = True, font_color = ''#000000'',
         font_name = ''courier'', font_size = 10, is_collapsed = True,
         cfg_description = ''A choice within an enumeration.''\<rparr>)]"

text \<open>
  \<^verbatim>\<open>get_section\<close> returns \<^verbatim>\<open>{}\<close> for an unknown key, and every field read from \<^verbatim>\<open>{}\<close>
  raises \<^verbatim>\<open>KeyError\<close>: \<open>None\<close> stands for the empty section.
\<close>

definition get_section :: "string \<Rightarrow> style option" where
  "get_section key = map_of CONFIG key"

text \<open>
  Modelled from the spec: the type-key constants of \<^verbatim>\<open>utils_constants\<close>, which the
  generator imports; the spec lists the section keys of the configuration table.
\<close>

definition TYPE_KEY_ENUM_CHOICE :: string where "TYPE_KEY_ENUM_CHOICE = ''enum-choice''"
definition TYPE_KEY_GRID :: string where "TYPE_KEY_GRID = ''grid''"
definition TYPE_KEY_KEYPROPS :: string where "TYPE_KEY_KEYPROPS = ''keyprops''"
definition TYPE_KEY_PROCESS :: string where "TYPE_KEY_PROCESS = ''process''"
definition TYPE_KEY_PROPERTY :: string where "TYPE_KEY_PROPERTY = ''property''"
definition TYPE_KEY_PROPERTY_SET :: string where "TYPE_KEY_PROPERTY_SET = ''property-set''"
definition TYPE_KEY_REALM :: string where "TYPE_KEY_REALM = ''realm''"
definition TYPE_KEY_SUBPROCESS :: string where "TYPE_KEY_SUBPROCESS = ''subprocess''"

definition SECTIONS :: "string option odict" where
  "SECTIONS =
    [(TYPE_KEY_ENUM_CHOICE, None),
     (TYPE_KEY_GRID, Some ''science.topic''),
     (TYPE_KEY_KEYPROPS, Some ''science.topic''),
     (TYPE_KEY_PROCESS, Some ''science.topic''),
     (TYPE_KEY_PROPERTY, None),
     (TYPE_KEY_PROPERTY_SET, None),
     (TYPE_KEY_REALM, Some ''science.realm''),
     (TYPE_KEY_SUBPROCESS, Some ''science.topic'')]"


subsection \<open>The generator\<close>

text \<open>
  The generator holds its root, the document \<^verbatim>\<open>mmap\<close> (\<^verbatim>\<open>None\<close> until the root is
  parsed) and the cache \<^verbatim>\<open>nodes\<close> from node identity to the element created for it.
\<close>

record mm_generator =
  mm_root :: topic
  mmap :: "xml option"
  nodes :: "nat \<rightharpoonup> nat list"

definition mm_init :: "topic \<Rightarrow> mm_generator" where
  "mm_init root = \<lparr>mm_root = root, mmap = None, nodes = Map.empty\<rparr>"

text \<open>The model nodes a handler passes to \<^verbatim>\<open>_emit_node\<close> as \<^verbatim>\<open>owner\<close>.\<close>

datatype owner =
    OTopic topic
  | OPropertySet property_set
  | OProperty property
  | OEnumChoice enum_choice

fun o_ident :: "owner \<Rightarrow> nat" where
  "o_ident (OTopic t) = t_ident t"
| "o_ident (OPropertySet s) = ps_ident s"
| "o_ident (OProperty p) = p_ident p"
| "o_ident (OEnumChoice c) = ec_ident c"

fun o_type_key :: "owner \<Rightarrow> string" where
  "o_type_key (OTopic t) = t_type_key t"
| "o_type_key (OPropertySet s) = ps_type_key s"
| "o_type_key (OProperty p) = p_type_key p"
| "o_type_key (OEnumChoice c) = ec_type_key c"

fun o_name :: "owner \<Rightarrow> string" where
  "o_name (OTopic t) = t_name t"
| "o_name (OPropertySet s) = ps_name s"
| "o_name (OProperty p) = p_name p"
| "o_name (OEnumChoice c) = ec_name c"

fun o_url :: "owner \<Rightarrow> string option" where
  "o_url (OTopic t) = t_url t"
| "o_url (OPropertySet s) = ps_url s"
| "o_url (OProperty p) = p_url p"
| "o_url (OEnumChoice c) = ec_url c"

fun o_description :: "owner \<Rightarrow> string option" where
  "o_description (OTopic t) = t_description t"
| "o_description (OPropertySet s) = ps_description s"
| "o_description (OProperty p) = p_description p"
| "o_description (OEnumChoice c) = ec_description c"

fun o_id :: "owner \<Rightarrow> string" where
  "o_id (OTopic t) = t_id t"
| "o_id (OPropertySet s) = ps_id s"
| "o_id (OProperty p) = p_id p"
| "o_id (OEnumChoice c) = ec_id c"

definition NOTE_HTML :: "string \<Rightarrow> string \<Rightarrow> string" where
  "NOTE_HTML k v = ''<dt><b>'' @ k @ ''</b></dt><dd>'' @ v @ ''</dd>''"

definition NOTES_HTML :: "string \<Rightarrow> string" where
  "NOTES_HTML body =
     [CHR 0x0A] @ ''<html>'' @ [CHR 0x0A] @ ''  <head></head>'' @ [CHR 0x0A] @ ''  <body>''
     @ [CHR 0x0A] @ ''    <dl>'' @ [CHR 0x0A] @ ''        '' @ body @ [CHR 0x0A]
     @ ''    </dl>'' @ [CHR 0x0A] @ ''  </body>'' @ [CHR 0x0A] @ ''</html>'' @ [CHR 0x0A]"

text \<open>
  \<^verbatim>\<open>_get_notes\<close> returns pairs of a title and a function of the node; \<^verbatim>\<open>_emit_notes\<close>
  applies each function to the node it was built for, so the pairs below hold the values.
  A \<^verbatim>\<open>PropertySpecialization\<close> is a property; a \<^verbatim>\<open>TopicSpecialization\<close> without parent
  is the document root.
\<close>

definition get_notes :: "owner \<Rightarrow> (string \<times> string) list" where
  "get_notes spec =
     [(''Description'',
         (case o_description spec of None \<Rightarrow> ''N/A'' | Some d \<Rightarrow> py_replace d ''&'' ''and'')),
      (''Spec. ID'', o_id spec)]
     @ (case spec of
          OProperty p \<Rightarrow>
            [(''Type'', p_typeof p), (''Cardinality'', p_cardinality p),
             (''Specialization ID'', p_id p)]
        | OTopic t \<Rightarrow>
            (if t_parent t = None
             then [(''Contact'', t_contact t), (''Authors'', t_authors t),
                   (''Contributors'', t_contributors t)]
             else [])
        | _ \<Rightarrow> [])"

text \<open>
  \<^verbatim>\<open>parent.append(e)\<close> on the element a path refers to; the result is the reference to
  the new child. \<^verbatim>\<open>ET.SubElement(parent, tag, attrib)\<close> appends a fresh element.
\<close>

definition append_element ::
  "nat list \<Rightarrow> xml \<Rightarrow> mm_generator \<Rightarrow> error + (nat list \<times> mm_generator)" where
  "append_element parent e g =
     (case mmap g of
        None \<Rightarrow> Inl StaleReference
      | Some doc \<Rightarrow>
          (case elem_at parent doc of
             None \<Rightarrow> Inl StaleReference
           | Some pe \<Rightarrow>
               Inr (parent @ [length (children pe)], g\<lparr>mmap := Some (add_child parent e doc)\<rparr>)))"

definition sub_element ::
  "nat list \<Rightarrow> string \<Rightarrow> (string \<times> string) list \<Rightarrow> mm_generator
     \<Rightarrow> error + (nat list \<times> mm_generator)" where
  "sub_element parent tg atts g = append_element parent (Element tg atts [] []) g"

text \<open>
  The common part of \<^verbatim>\<open>_emit_notes\<close>: the notes are formatted, a \<^verbatim>\<open>richcontent\<close> element
  is created under the parent and the parsed markup is appended to it. \<^verbatim>\<open>ET.fromstring\<close>
  is the parameter \<open>fromstring\<close>; \<open>None\<close> is its \<^verbatim>\<open>ParseError\<close>.
\<close>

definition notes_html :: "(string \<times> string) list \<Rightarrow> string" where
  "notes_html notes = NOTES_HTML (concat (map (\<lambda>(k, v). NOTE_HTML k v) notes))"

definition emit_notes_at ::
  "(string \<Rightarrow> xml option) \<Rightarrow> nat list \<Rightarrow> (string \<times> string) list \<Rightarrow> mm_generator
     \<Rightarrow> error + mm_generator" where
  "emit_notes_at fromstring parent notes g =
     and_then (sub_element parent ''richcontent'' [(''TYPE'', ''NOTE'')] g)
       (\<lambda>(node, g1).
          case fromstring (notes_html notes) of
            None \<Rightarrow> Inl ParseError
          | Some h \<Rightarrow> and_then (append_element node h g1) (\<lambda>(c, g2). Inr g2))"

text \<open>
  \<^verbatim>\<open>_emit_notes(owner)\<close> for a model node: the parent is \<^verbatim>\<open>self.nodes[owner]\<close>, the notes
  are those of \<^verbatim>\<open>_get_notes\<close>, and since the node has an \<^verbatim>\<open>id\<close> every value is applied.
\<close>

definition emit_notes ::
  "(string \<Rightarrow> xml option) \<Rightarrow> owner \<Rightarrow> mm_generator \<Rightarrow> error + mm_generator" where
  "emit_notes fromstring owner g =
     (case nodes g (o_ident owner) of
        None \<Rightarrow> Inl KeyError
      | Some parent \<Rightarrow> emit_notes_at fromstring parent (get_notes owner) g)"

text \<open>
  \<^verbatim>\<open>_emit_notes(node, notes)\<close> for an element with the given (non-empty) notes: the
  element is the parent, and having no \<^verbatim>\<open>id\<close> it leaves every value as it is.
\<close>

definition emit_notes_element ::
  "(string \<Rightarrow> xml option) \<Rightarrow> nat list \<Rightarrow> (string \<times> string) list \<Rightarrow> mm_generator
     \<Rightarrow> error + mm_generator" where
  "emit_notes_element fromstring node notes g = emit_notes_at fromstring node notes g"

definition emit_font :: "owner \<Rightarrow> style \<Rightarrow> mm_generator \<Rightarrow> error + mm_generator" where
  "emit_font owner cfg g =
     (case nodes g (o_ident owner) of
        None \<Rightarrow> Inl KeyError
      | Some node \<Rightarrow>
          and_then
            (sub_element node ''font''
               [(''BOLD'', str_bool (font_bold cfg)), (''NAME'', font_name cfg),
                (''SIZE'', str_nat (font_size cfg))] g)
            (\<lambda>(c, g1). Inr g1))"

text \<open>The \<^verbatim>\<open>parent\<close> argument of \<^verbatim>\<open>_emit_node\<close>: an element, or a model node to look up.\<close>

datatype parent_ref = PElement "nat list" | PNode nat

definition node_atts :: "style \<Rightarrow> owner \<Rightarrow> string option \<Rightarrow> string \<Rightarrow> (string \<times> string) list" where
  "node_atts cfg owner txt sty =
     [(''FOLDED'', lower_bool (is_collapsed cfg)),
      (''COLOR'', font_color cfg),
      (''BACKGROUND_COLOR'', bg_color cfg),
      (''STYLE'', sty),
      (''TEXT'', (case txt of None \<Rightarrow> o_name owner
                           | Some t \<Rightarrow> if t \<noteq> [] then t else o_name owner))]
     @ (case o_url owner of None \<Rightarrow> [] | Some u \<Rightarrow> [(''LINK'', u)])"

definition emit_node ::
  "(string \<Rightarrow> xml option) \<Rightarrow> parent_ref \<Rightarrow> owner \<Rightarrow> string option \<Rightarrow> string \<Rightarrow> mm_generator
     \<Rightarrow> error + mm_generator" where
  "emit_node fromstring parent owner txt sty g =
     (case get_section (o_type_key owner) of
        None \<Rightarrow> Inl KeyError
      | Some cfg \<Rightarrow>
          (case (case parent of PElement e \<Rightarrow> Some e | PNode n \<Rightarrow> nodes g n) of
             None \<Rightarrow> Inl KeyError
           | Some pe \<Rightarrow>
               and_then (sub_element pe ''node'' (node_atts cfg owner txt sty) g)
                 (\<lambda>(node, g1).
                    and_then (emit_font owner cfg (g1\<lparr>nodes := (nodes g1)(o_ident owner \<mapsto> node)\<rparr>))
                      (emit_notes fromstring owner))))"

fun emit_changes ::
  "(string \<Rightarrow> xml option) \<Rightarrow> nat list \<Rightarrow> (string \<times> string \<times> string \<times> string) list
     \<Rightarrow> mm_generator \<Rightarrow> error + mm_generator" where
  "emit_changes fromstring root_node [] g = Inr g"
| "emit_changes fromstring root_node ((version, date, person, comment) # rest) g =
     and_then (sub_element root_node ''node'' [(''STYLE'', ''bubble''), (''TEXT'', version)] g)
       (\<lambda>(node, g1).
          and_then
            (emit_notes_element fromstring node
               [(''Version'', version), (''Date'', date), (''Person'', person),
                (''Comment'', comment)] g1)
            (emit_changes fromstring root_node rest))"

definition emit_change_history ::
  "(string \<Rightarrow> xml option) \<Rightarrow> topic \<Rightarrow> mm_generator \<Rightarrow> error + mm_generator" where
  "emit_change_history fromstring root g =
     (case nodes g (t_ident root) of
        None \<Rightarrow> Inl KeyError
      | Some rn \<Rightarrow>
          and_then
            (sub_element rn ''node''
               [(''FOLDED'', ''true''), (''STYLE'', ''bubble''), (''TEXT'', ''CHANGE HISTORY''),
                (''POSITION'', ''left'')] g)
            (\<lambda>(root_node, g1). emit_changes fromstring root_node (t_change_history root) g1))"

fun emit_sections ::
  "(string \<Rightarrow> xml option) \<Rightarrow> nat list \<Rightarrow> string list \<Rightarrow> mm_generator \<Rightarrow> error + mm_generator" where
  "emit_sections fromstring root_node [] g = Inr g"
| "emit_sections fromstring root_node (section # rest) g =
     (case get_section section of
        None \<Rightarrow> Inl KeyError
      | Some cfg \<Rightarrow>
          and_then
            (sub_element root_node ''node''
               [(''BACKGROUND_COLOR'', bg_color cfg), (''COLOR'', font_color cfg),
                (''STYLE'', ''bubble''), (''TEXT'', section)] g)
            (\<lambda>(node, g1).
               and_then
                 (emit_notes_element fromstring node [(''Description'', cfg_description cfg)] g1)
                 (emit_sections fromstring root_node rest)))"

definition emit_legend ::
  "(string \<Rightarrow> xml option) \<Rightarrow> topic \<Rightarrow> mm_generator \<Rightarrow> error + mm_generator" where
  "emit_legend fromstring root g =
     (case nodes g (t_ident root) of
        None \<Rightarrow> Inl KeyError
      | Some rn \<Rightarrow>
          and_then
            (sub_element rn ''node''
               [(''FOLDED'', ''true''), (''STYLE'', ''bubble''), (''TEXT'', ''LEGEND''),
                (''POSITION'', ''left'')] g)
            (\<lambda>(root_node, g1). emit_sections fromstring root_node (map fst SECTIONS) g1))"

definition mm_on_root_parse ::
  "(string \<Rightarrow> xml option) \<Rightarrow> topic \<Rightarrow> mm_generator \<Rightarrow> error + mm_generator" where
  "mm_on_root_parse fromstring root g =
     and_then
       (and_then
          (emit_node fromstring (PElement []) (OTopic root) None ''fork''
             (g\<lparr>mmap := Some (Element ''map'' [] [] [])\<rparr>))
          (emit_change_history fromstring root))
       (emit_legend fromstring root)"

definition on_grid_parse ::
  "(string \<Rightarrow> xml option) \<Rightarrow> topic \<Rightarrow> mm_generator \<Rightarrow> error + mm_generator" where
  "on_grid_parse fromstring grid g =
     emit_node fromstring (PNode (t_ident (mm_root g))) (OTopic grid) None ''bubble'' g"

definition on_keyprops_parse ::
  "(string \<Rightarrow> xml option) \<Rightarrow> topic \<Rightarrow> mm_generator \<Rightarrow> error + mm_generator" where
  "on_keyprops_parse fromstring key_props g =
     emit_node fromstring (PNode (t_ident (mm_root g))) (OTopic key_props) None ''bubble'' g"

definition on_process_parse ::
  "(string \<Rightarrow> xml option) \<Rightarrow> topic \<Rightarrow> mm_generator \<Rightarrow> error + mm_generator" where
  "on_process_parse fromstring process g =
     and_then
       (emit_node fromstring (PNode (t_ident (mm_root g))) (OTopic process) None ''bubble'' g)
       (emit_notes fromstring (OTopic process))"

text \<open>A sub-process without parent passes \<^verbatim>\<open>None\<close>, which is no key of the cache.\<close>

definition on_subprocess_parse ::
  "(string \<Rightarrow> xml option) \<Rightarrow> topic \<Rightarrow> mm_generator \<Rightarrow> error + mm_generator" where
  "on_subprocess_parse fromstring subprocess g =
     (case t_parent subprocess of
        None \<Rightarrow> Inl KeyError
      | Some parent \<Rightarrow> emit_node fromstring (PNode parent) (OTopic subprocess) None ''bubble'' g)"

definition on_property_set_parse ::
  "(string \<Rightarrow> xml option) \<Rightarrow> property_set \<Rightarrow> mm_generator \<Rightarrow> error + mm_generator" where
  "on_property_set_parse fromstring prop_set g =
     (if ps_are_cim_properties prop_set then Inr g
      else emit_node fromstring (PNode (ps_owner prop_set)) (OPropertySet prop_set) None
             ''bubble'' g)"

definition mm_on_property_parse ::
  "(string \<Rightarrow> xml option) \<Rightarrow> property \<Rightarrow> mm_generator \<Rightarrow> error + mm_generator" where
  "mm_on_property_parse fromstring prop g =
     (if p_was_injected prop then Inr g
      else and_then
             (emit_node fromstring (PNode (p_owner prop)) (OProperty prop) None ''bubble'' g)
             (emit_notes fromstring (OProperty prop)))"

definition on_enum_choice_parse ::
  "(string \<Rightarrow> xml option) \<Rightarrow> enum_choice \<Rightarrow> mm_generator \<Rightarrow> error + mm_generator" where
  "on_enum_choice_parse fromstring choice g =
     emit_node fromstring (PNode (ec_enum_detail choice)) (OEnumChoice choice)
       (Some (ec_value choice)) ''bubble'' g"

text \<open>The Graph Form generator defines no handler for the root's exit.\<close>

fun mm_handle :: "(string \<Rightarrow> xml option) \<Rightarrow> event \<Rightarrow> mm_generator \<Rightarrow> error + mm_generator" where
  "mm_handle fromstring (RootParse root) g = mm_on_root_parse fromstring root g"
| "mm_handle fromstring (RootParsed root) g = Inr g"
| "mm_handle fromstring (GridParse grid) g = on_grid_parse fromstring grid g"
| "mm_handle fromstring (KeypropsParse key_props) g = on_keyprops_parse fromstring key_props g"
| "mm_handle fromstring (ProcessParse process) g = on_process_parse fromstring process g"
| "mm_handle fromstring (SubprocessParse subprocess) g =
     on_subprocess_parse fromstring subprocess g"
| "mm_handle fromstring (PropertySetParse prop_set) g =
     on_property_set_parse fromstring prop_set g"
| "mm_handle fromstring (PropertyParse prop) g = mm_on_property_parse fromstring prop g"
| "mm_handle fromstring (EnumChoiceParse choice) g = on_enum_choice_parse fromstring choice g"

text \<open>\<^verbatim>\<open>get_output\<close> serializes the document; \<^verbatim>\<open>ET.tostring\<close> is a parameter.\<close>

definition mm_get_output :: "(xml \<Rightarrow> string) \<Rightarrow> mm_generator \<Rightarrow> error + string" where
  "mm_get_output tostring g =
     (case mmap g of None \<Rightarrow> Inl TypeError | Some doc \<Rightarrow> Inr (tostring doc))"


section \<open>The traversal engine\<close>

text \<open>
  Modelled from the spec: the traversal engine \<^verbatim>\<open>utils_parser.SpecializationParser\<close>, the
  base class of both generators, which is not among the generators' sources. It walks the
  tree depth-first in document order: the root is entered, every sub-topic is entered by
  the handler of its kind and followed by its properties, its property sets with their
  properties, and its sub-topics; each property is followed by the choices of its
  enumeration; the root is exited last. A kind without handler contract is a
  \<open>StructuralError\<close>.
\<close>

fun collect :: "(error + 'a) list \<Rightarrow> error + 'a list" where
  "collect [] = Inr []"
| "collect (r # rs) =
     (case r of Inl e \<Rightarrow> Inl e
      | Inr x \<Rightarrow> (case collect rs of Inl e \<Rightarrow> Inl e | Inr xs \<Rightarrow> Inr (x # xs)))"

definition walk_property :: "property \<Rightarrow> event list" where
  "walk_property prop =
     PropertyParse prop
     # (case p_enum prop of None \<Rightarrow> [] | Some e \<Rightarrow> map EnumChoiceParse (e_choices e))"

definition walk_property_set :: "property_set \<Rightarrow> event list" where
  "walk_property_set prop_set =
     PropertySetParse prop_set # concat (map walk_property (ps_properties prop_set))"

definition topic_event :: "topic \<Rightarrow> error + event" where
  "topic_event t =
     (if t_type_key t = TYPE_KEY_GRID then Inr (GridParse t)
      else if t_type_key t = TYPE_KEY_KEYPROPS then Inr (KeypropsParse t)
      else if t_type_key t = TYPE_KEY_PROCESS then Inr (ProcessParse t)
      else if t_type_key t = TYPE_KEY_SUBPROCESS then Inr (SubprocessParse t)
      else Inl StructuralError)"

function walk_topic :: "topic \<Rightarrow> error + event list" where
  "walk_topic t =
     (case topic_event t of
        Inl e \<Rightarrow> Inl e
      | Inr ev \<Rightarrow>
          (case collect (map walk_topic (t_sub_topics t)) of
             Inl e \<Rightarrow> Inl e
           | Inr subs \<Rightarrow>
               Inr (ev # concat (map walk_property (t_properties t))
                       @ concat (map walk_property_set (t_property_sets t))
                       @ concat subs)))"
  by pat_completeness auto
termination
proof (relation "measure size")
  show "wf (measure size)" by simp
next
  fix t :: topic and ev :: event and x :: topic
  assume "x \<in> set (t_sub_topics t)"
  then have "size x < Suc (size_list size (t_sub_topics t))"
    by (induction "t_sub_topics t" arbitrary: t) (auto simp: less_Suc_eq_le dest: size_list_estimation')
  then show "(x, t) \<in> measure size" by (cases t) simp
qed

definition walk :: "topic \<Rightarrow> error + event list" where
  "walk root =
     (case collect (map walk_topic (t_sub_topics root)) of
        Inl e \<Rightarrow> Inl e
      | Inr subs \<Rightarrow> Inr (RootParse root # concat subs @ [RootParsed root]))"


definition mm_document :: "(string \<Rightarrow> xml option) \<Rightarrow> topic \<Rightarrow> error + xml" where
  "mm_document fromstring root =
     and_then (walk root) (\<lambda>evs.
       and_then (run_events (mm_handle fromstring) evs (mm_init root)) (\<lambda>g.
         case mmap g of None \<Rightarrow> Inl TypeError | Some doc \<Rightarrow> Inr doc))"


section \<open>Observations, expected output and example trees\<close>

text \<open>
  \<open>cached\<close> reads the fragment cache after a handler has run, \<open>last_property_of\<close> is the
  entry last appended to the \<^verbatim>\<open>properties\<close> of a cached fragment, and \<open>graph_node\<close> is the
  element cached for a model node. The elements the Graph Form builder is expected to
  create (\<open>note_block\<close>, \<open>font_node\<close>, \<open>change_node\<close>, \<open>section_node\<close> and the two
  sections of the root) are written out once, to be compared with what the handlers
  build. \<open>example_fromstring\<close> stands for a markup parser that accepts every text.
\<close>

definition cached :: "error + js_generator \<Rightarrow> nat \<Rightarrow> json odict option" where
  "cached r key = (case r of Inl e \<Rightarrow> None | Inr g \<Rightarrow> maps g key)"

definition last_property_of :: "error + js_generator \<Rightarrow> nat \<Rightarrow> json option" where
  "last_property_of r key =
     (case cached r key of
        None \<Rightarrow> None
      | Some frag \<Rightarrow>
          (case map_of frag ''properties'' of
             Some (JList ps) \<Rightarrow> (if ps = [] then None else Some (last ps))
           | _ \<Rightarrow> None))"

definition example_choice_a :: enum_choice where
  "example_choice_a =
     EnumChoice 7 ''cordex.atmos.dynamics.scheme.a'' ''a'' (Some ''first'') ''A''
       ''enum-choice'' None 5"

definition example_choice_b :: enum_choice where
  "example_choice_b =
     EnumChoice 8 ''cordex.atmos.dynamics.scheme.b'' ''b'' None ''B'' ''enum-choice'' None 5"

definition example_enum :: enum where
  "example_enum = Enum ''scheme_types'' (Some ''Kinds of scheme'') True 5
     [example_choice_a, example_choice_b]"

definition example_property :: property where
  "example_property =
     Property 5 ''cordex.atmos.dynamics.scheme.kind'' ''kind'' (Some ''Scheme & kind'') ''1.1''
       ''ENUM'' False (Some example_enum) 2 2 ''property'' None"

definition example_injected :: property where
  "example_injected =
     Property 6 ''cordex.atmos.dynamics.name'' ''name'' None ''1.1'' ''str'' True None 2 2
       ''property'' None"

definition example_subprocess :: topic where
  "example_subprocess =
     Topic 3 ''cordex.atmos.dynamics.advection'' ''advection'' None ''me'' [] [] []
       ''subprocess'' None (Some 2) [] [] []"

definition example_process :: topic where
  "example_process =
     Topic 2 ''cordex.atmos.dynamics'' ''dynamics'' (Some ''Dynamics'') ''me'' [] [] []
       ''process'' (Some ''http://example.org/dynamics'') (Some 1)
       [example_property, example_injected] [] [example_subprocess]"

definition example_root :: topic where
  "example_root =
     Topic 1 ''cordex.atmos'' ''atmos'' (Some ''Atmosphere'') ''me'' ''A, B '' ''C''
       [(''1.0.0'', ''2017-01-01'', ''me'', ''Initial'')] ''realm'' None None [] []
       [example_process]"

definition example_js :: js_generator where
  "example_js =
     \<lparr>js_root = example_root,
      maps = [1 \<mapsto> root_fragment id example_root, 2 \<mapsto> topic_fragment id example_process]\<rparr>"

text \<open>
  A generator whose cache holds at least the entries of another, with the same root (and,
  for the Graph Form, the same document once there is one).
\<close>

definition js_le :: "js_generator \<Rightarrow> js_generator \<Rightarrow> bool" where
  "js_le g g' = (maps g \<subseteq>\<^sub>m maps g' \<and> js_root g' = js_root g)"

definition mm_le :: "mm_generator \<Rightarrow> mm_generator \<Rightarrow> bool" where
  "mm_le g g' =
     (nodes g \<subseteq>\<^sub>m nodes g' \<and> mm_root g' = mm_root g \<and>
      (\<forall>doc. mmap g = Some doc \<longrightarrow> mmap g' = Some doc))"

definition note_block :: "(string \<Rightarrow> xml option) \<Rightarrow> (string \<times> string) list \<Rightarrow> xml" where
  "note_block fs notes =
     Element ''richcontent'' [(''TYPE'', ''NOTE'')] []
       (case fs (notes_html notes) of None \<Rightarrow> [] | Some h \<Rightarrow> [h])"

definition change_notes :: "string \<times> string \<times> string \<times> string \<Rightarrow> (string \<times> string) list" where
  "change_notes c = (case c of (version, date, person, comment) \<Rightarrow>
     [(''Version'', version), (''Date'', date), (''Person'', person), (''Comment'', comment)])"

definition change_node ::
  "(string \<Rightarrow> xml option) \<Rightarrow> string \<times> string \<times> string \<times> string \<Rightarrow> xml" where
  "change_node fs c =
     Element ''node'' [(''STYLE'', ''bubble''), (''TEXT'', fst c)] [] [note_block fs (change_notes c)]"

definition section_node :: "(string \<Rightarrow> xml option) \<Rightarrow> string \<Rightarrow> style \<Rightarrow> xml" where
  "section_node fs sec cfg =
     Element ''node''
       [(''BACKGROUND_COLOR'', bg_color cfg), (''COLOR'', font_color cfg),
        (''STYLE'', ''bubble''), (''TEXT'', sec)] []
       [note_block fs [(''Description'', cfg_description cfg)]]"

definition section_nodes :: "(string \<Rightarrow> xml option) \<Rightarrow> string list \<Rightarrow> xml list" where
  "section_nodes fs secs =
     concat (map (\<lambda>sec. case get_section sec of None \<Rightarrow> []
                         | Some cfg \<Rightarrow> [section_node fs sec cfg]) secs)"

definition section_ok :: "(string \<Rightarrow> xml option) \<Rightarrow> string \<Rightarrow> bool" where
  "section_ok fs sec =
     (case get_section sec of None \<Rightarrow> False
      | Some cfg \<Rightarrow> fs (notes_html [(''Description'', cfg_description cfg)]) \<noteq> None)"

definition change_ok :: "(string \<Rightarrow> xml option) \<Rightarrow> string \<times> string \<times> string \<times> string \<Rightarrow> bool" where
  "change_ok fs c = (fs (notes_html (change_notes c)) \<noteq> None)"

definition font_node :: "style \<Rightarrow> xml" where
  "font_node cfg =
     Element ''font'' [(''BOLD'', str_bool (font_bold cfg)), (''NAME'', font_name cfg),
       (''SIZE'', str_nat (font_size cfg))] [] []"

definition history_section :: "(string \<Rightarrow> xml option) \<Rightarrow> topic \<Rightarrow> xml" where
  "history_section fs root =
     Element ''node''
       [(''FOLDED'', ''true''), (''STYLE'', ''bubble''), (''TEXT'', ''CHANGE HISTORY''),
        (''POSITION'', ''left'')] []
       (map (change_node fs) (t_change_history root))"

definition legend_section :: "(string \<Rightarrow> xml option) \<Rightarrow> xml" where
  "legend_section fs =
     Element ''node''
       [(''FOLDED'', ''true''), (''STYLE'', ''bubble''), (''TEXT'', ''LEGEND''),
        (''POSITION'', ''left'')] []
       (section_nodes fs (map fst SECTIONS))"

definition root_document :: "(string \<Rightarrow> xml option) \<Rightarrow> style \<Rightarrow> topic \<Rightarrow> xml" where
  "root_document fs cfg root =
     Element ''map'' [] []
       [Element ''node'' (node_atts cfg (OTopic root) None ''fork'') []
          [font_node cfg, note_block fs (get_notes (OTopic root)),
           history_section fs root, legend_section fs]]"

text \<open>
  After the root handler the root's graph node is the first child of the document and
  its first four children are the font, the notes and the two sections. \<open>good\<close> holds of
  the references through which later handlers append: the root's graph node itself, or
  an element at or beneath a child of it after the fourth.
\<close>

fun good :: "nat list \<Rightarrow> bool" where
  "good [] = False"
| "good [i] = (i = 0)"
| "good (i # j # r) = (i = 0 \<and> 4 \<le> j)"

definition rooted_doc :: "xml list \<Rightarrow> xml \<Rightarrow> bool" where
  "rooted_doc secs doc =
     (\<exists>rn. elem_at [0] doc = Some rn \<and> take 4 (children rn) = secs \<and> length secs = 4)"

definition rooted :: "xml list \<Rightarrow> mm_generator \<Rightarrow> bool" where
  "rooted secs g =
     ((\<exists>doc. mmap g = Some doc \<and> rooted_doc secs doc) \<and> (\<forall>k p. nodes g k = Some p \<longrightarrow> good p))"

fun is_root_parse :: "event \<Rightarrow> bool" where
  "is_root_parse (RootParse root) = True"
| "is_root_parse ev = False"

definition example_fromstring :: "string \<Rightarrow> xml option" where
  "example_fromstring s = Some (Element ''html'' [] s [])"

definition graph_node :: "error + mm_generator \<Rightarrow> nat \<Rightarrow> xml option" where
  "graph_node r key =
     (case r of
        Inl e \<Rightarrow> None
      | Inr g \<Rightarrow>
          (case nodes g key of
             None \<Rightarrow> None
           | Some p \<Rightarrow> (case mmap g of None \<Rightarrow> None | Some doc \<Rightarrow> elem_at p doc)))"

definition example_cim_choice :: enum_choice where
  "example_cim_choice =
     EnumChoice 10 ''cordex.atmos.dynamics.basis.x'' ''x'' None ''X'' ''enum-choice'' None 9"

definition example_cim_property :: property where
  "example_cim_property =
     Property 9 ''cordex.atmos.dynamics.basis'' ''basis'' None ''0.1'' ''ENUM'' True
       (Some (Enum ''basis_types'' None False 9 [example_cim_choice])) 2 2 ''property'' None"

definition example_cim_process :: topic where
  "example_cim_process =
     Topic 2 ''cordex.atmos.dynamics'' ''dynamics'' (Some ''Dynamics'') ''me'' [] [] []
       ''process'' None (Some 1) [example_cim_property] [] []"

definition example_cim_root :: topic where
  "example_cim_root =
     Topic 1 ''cordex.atmos'' ''atmos'' (Some ''Atmosphere'') ''me'' ''A'' ''C'' [] ''realm''
       None None [] [] [example_cim_process]"

definition example_events :: "event list" where
  "example_events =
     [RootParse example_root, ProcessParse example_process, RootParsed example_root]"

text \<open>
  Modelled from the spec: the well-formed trees of the specialization model, which
  \<^verbatim>\<open>utils_model\<close> and the parser build and the generators only consume. The spec has the
  root's sub-topics of kind grid, key-properties or process, sub-processes beneath a
  process, and a property referring through \<^verbatim>\<open>root_topic\<close> to the sub-topic of the root it
  lies beneath; the identities of the root and its sub-topics are distinct.
  \<open>all_properties\<close> lists the properties beneath a topic in document order.
\<close>

function all_properties :: "topic \<Rightarrow> property list" where
  "all_properties t =
     t_properties t @ concat (map ps_properties (t_property_sets t))
     @ concat (map all_properties (t_sub_topics t))"
  by pat_completeness auto

termination
proof (relation "measure size")
  show "wf (measure size)" by simp
next
  fix t :: topic and x :: topic
  assume "x \<in> set (t_sub_topics t)"
  then have "size x < Suc (size_list size (t_sub_topics t))"
    by (induction "t_sub_topics t" arbitrary: t) (auto simp: less_Suc_eq_le dest: size_list_estimation')
  then show "(x, t) \<in> measure size" by (cases t) simp
qed

function subprocess_tree :: "topic \<Rightarrow> bool" where
  "subprocess_tree t =
     (t_type_key t = TYPE_KEY_SUBPROCESS \<and> list_all subprocess_tree (t_sub_topics t))"
  by pat_completeness auto

termination
proof (relation "measure size")
  show "wf (measure size)" by simp
next
  fix t :: topic and x :: topic
  assume "x \<in> set (t_sub_topics t)"
  then have "size x < Suc (size_list size (t_sub_topics t))"
    by (induction "t_sub_topics t" arbitrary: t) (auto simp: less_Suc_eq_le dest: size_list_estimation')
  then show "(x, t) \<in> measure size" by (cases t) simp
qed



text \<open>
  The document the Tree Form is expected to produce for a tree: the root's fragment with
  one fragment per sub-topic, each holding the fragments of the properties beneath it.
  \<open>fragment_ids\<close> collects the \<^verbatim>\<open>id\<close> of every mapping of a JSON value.
\<close>

definition topic_document :: "(string \<Rightarrow> string) \<Rightarrow> topic \<Rightarrow> json odict" where
  "topic_document get_label t =
     od_set ''properties''
       (JList (map (\<lambda>p. JObj (property_fragment get_label p)) (all_properties t)))
       (topic_fragment get_label t)"






definition visit :: "(string \<Rightarrow> string) \<Rightarrow> topic list \<Rightarrow> (nat \<rightharpoonup> json odict) \<Rightarrow> (nat \<rightharpoonup> json odict)" where
  "visit gl ts m = foldl (\<lambda>m t. m(t_ident t \<mapsto> topic_document gl t)) m ts"


section \<open>Properties\<close>

subsection \<open>Fragments of the Tree Form handlers\<close>

lemmas example_defs = example_choice_a_def example_choice_b_def example_enum_def
  example_property_def example_injected_def example_subprocess_def example_process_def
  example_root_def example_js_def

lemma and_then_Inr [simp]: "and_then (Inr x) f = f x"
  by (simp add: and_then_def)

lemma and_then_Inl [simp]: "and_then (Inl e) f = Inl e"
  by (simp add: and_then_def)

lemma and_then_eq_Inr: "and_then r f = Inr y \<longleftrightarrow> (\<exists>x. r = Inr x \<and> f x = Inr y)"
  by (cases r) simp_all

lemma map_of_od_set_same [simp]: "map_of (od_set k v kvs) k = Some v"
  by (induction kvs) auto

lemma map_of_od_set_other [simp]: "k' \<noteq> k \<Longrightarrow> map_of (od_set k v kvs) k' = map_of kvs k'"
  by (induction kvs) auto

lemma od_set_twice [simp]: "od_set k v (od_set k w kvs) = od_set k v kvs"
  by (induction kvs) auto

lemma map_fst_od_set: "map_of kvs k = Some w \<Longrightarrow> map fst (od_set k v kvs) = map fst kvs"
  by (induction kvs) (auto split: if_splits)

lemma append_to_Inr:
  "append_to key field objs g = Inr g' \<longleftrightarrow>
     (\<exists>frag xs. maps g key = Some frag \<and> map_of frag field = Some (JList xs) \<and>
        g' = g\<lparr>maps := (maps g)(key \<mapsto> od_set field (JList (xs @ objs)) frag)\<rparr>)"
  by (auto simp: append_to_def split: option.splits json.splits)

text \<open>
  Claim C5, as amended. On enter of the root the Tree Form builder stores, under the root's
  identity, an ordered mapping whose fields are exactly \<^verbatim>\<open>id\<close>, \<^verbatim>\<open>label\<close>, \<^verbatim>\<open>description\<close>,
  \<^verbatim>\<open>contact\<close>, \<^verbatim>\<open>authors\<close>, \<^verbatim>\<open>contributors\<close>, \<^verbatim>\<open>project\<close>, \<^verbatim>\<open>changeHistory\<close> and
  \<^verbatim>\<open>subTopics\<close>, in this order, with \<^verbatim>\<open>subTopics\<close> an empty list.
\<close>

theorem root_fragment_fields:
  "map_option (map fst) (cached (js_on_root_parse get_label root g) (t_ident root)) =
     Some [''id'', ''label'', ''description'', ''contact'', ''authors'', ''contributors'',
           ''project'', ''changeHistory'', ''subTopics'']
   \<and> map_option (\<lambda>frag. map_of frag ''subTopics'')
         (cached (js_on_root_parse get_label root g) (t_ident root)) = Some (Some (JList []))"
  by (simp add: cached_def js_on_root_parse_def root_fragment_def)

text \<open>
  Claim C5 as stated lists eight fields; the fragment of the example root has a ninth,
  the constant \<^verbatim>\<open>project\<close>.
\<close>

theorem root_fragment_fields_counterexample:
  "map_option (map fst) (cached (js_on_root_parse id example_root (js_init example_root))
       (t_ident example_root)) \<noteq>
     Some [''id'', ''label'', ''description'', ''contact'', ''authors'', ''contributors'',
           ''changeHistory'', ''subTopics'']"
  by (simp add: cached_def js_on_root_parse_def root_fragment_def)

text \<open>
  Claim C2, as amended. For every property visited, the Tree Form builder appends to the
  \<^verbatim>\<open>properties\<close> of the fragment cached for the property's root topic a mapping whose keys
  are \<^verbatim>\<open>id\<close>, \<^verbatim>\<open>label\<close>, \<^verbatim>\<open>description\<close>, \<^verbatim>\<open>cardinality\<close>, \<^verbatim>\<open>type\<close> and
  \<^verbatim>\<open>is_cim_property\<close> (and \<^verbatim>\<open>enum\<close> when the property has an enumeration), where the
  \<^verbatim>\<open>is_cim_property\<close> field equals the property's was-injected flag.
\<close>

theorem property_fragment_fields:
  assumes "js_on_property_parse get_label prop g = Inr g'"
  shows "\<exists>frag ps obj.
           maps g (p_root_topic prop) = Some frag \<and>
           map_of frag ''properties'' = Some (JList ps) \<and>
           cached (Inr g') (p_root_topic prop) = Some (od_set ''properties'' (JList (ps @ [JObj obj])) frag) \<and>
           last_property_of (Inr g') (p_root_topic prop) = Some (JObj obj) \<and>
           map fst obj =
             [''id'', ''label'', ''description'', ''cardinality'', ''type'', ''is_cim_property'']
             @ (if p_enum prop = None then [] else [''enum'']) \<and>
           map_of obj ''is_cim_property'' = Some (JBool (p_was_injected prop))"
  using assms
  by (auto simp: js_on_property_parse_def append_to_Inr cached_def last_property_of_def
        property_fragment_def split: option.splits)

theorem property_fragment_fields_witness:
  "\<exists>g'. js_on_property_parse id example_injected example_js = Inr g' \<and>
     (\<exists>obj. last_property_of (Inr g') 2 = Some (JObj obj) \<and>
        map_of obj ''is_cim_property'' = Some (JBool True))"
proof -
  obtain g' where h: "js_on_property_parse id example_injected example_js = Inr g'"
    by (simp add: js_on_property_parse_def append_to_def example_defs topic_fragment_def)
  from property_fragment_fields [OF h] show ?thesis
    using h by (auto simp: example_injected_def)
qed

text \<open>
  Claim C2 as stated names the field \<^verbatim>\<open>isInjected\<close>: the fragment of the injected example
  property has no such key; its flag is under \<^verbatim>\<open>is_cim_property\<close>.
\<close>

theorem property_fragment_fields_counterexample:
  "(case last_property_of (js_on_property_parse id example_injected example_js) 2 of
      Some (JObj obj) \<Rightarrow>
        map_of obj ''isInjected'' = None \<and> map_of obj ''is_cim_property'' = Some (JBool True)
    | _ \<Rightarrow> False)"
  by (simp add: last_property_of_def cached_def js_on_property_parse_def append_to_def
        example_defs topic_fragment_def property_fragment_def)

text \<open>
  Claim C4. For a property with an enumeration the \<^verbatim>\<open>type\<close> field of its fragment is the
  string \<^verbatim>\<open>enum\<close> (otherwise the declared type name, and no enum is inlined), and the
  fragment inlines an enum fragment whose \<^verbatim>\<open>id\<close>, \<^verbatim>\<open>label\<close>, \<^verbatim>\<open>description\<close> and
  \<^verbatim>\<open>is_open\<close> fields come from the enumeration and whose \<^verbatim>\<open>choices\<close> hold one
  description and value entry per choice, in declaration order.
\<close>

theorem property_enum_fragment:
  assumes "js_on_property_parse get_label prop g = Inr g'"
  shows "\<exists>obj. last_property_of (Inr g') (p_root_topic prop) = Some (JObj obj) \<and>
           (case p_enum prop of
              None \<Rightarrow>
                map_of obj ''type'' = Some (JStr (p_typeof prop)) \<and> map_of obj ''enum'' = None
            | Some enum \<Rightarrow>
                map_of obj ''type'' = Some (JStr ''enum'') \<and>
                map_of obj ''enum'' =
                  Some (JObj
                    [(''id'', json_opt (e_description enum)),
                     (''label'', JStr (get_label (e_name enum))),
                     (''description'', json_opt (e_description enum)),
                     (''is_open'', JBool (e_is_open enum)),
                     (''choices'',
                        JList (map (\<lambda>choice.
                                 JObj [(''description'', json_opt (ec_description choice)),
                                       (''value'', JStr (ec_value choice))])
                               (e_choices enum)))]))"
  using assms
  by (auto simp: js_on_property_parse_def append_to_Inr cached_def last_property_of_def
        property_fragment_def get_enum_def split: option.splits)

theorem property_enum_fragment_witness:
  "\<exists>g'. js_on_property_parse id example_property example_js = Inr g' \<and>
     (\<exists>obj. last_property_of (Inr g') 2 = Some (JObj obj) \<and>
        map_of obj ''type'' = Some (JStr ''enum'') \<and>
        map_of obj ''enum'' =
          Some (JObj
            [(''id'', JStr ''Kinds of scheme''),
             (''label'', JStr ''scheme_types''),
             (''description'', JStr ''Kinds of scheme''),
             (''is_open'', JBool True),
             (''choices'',
                JList [JObj [(''description'', JStr ''first''), (''value'', JStr ''A'')],
                       JObj [(''description'', JNull), (''value'', JStr ''B'')]])]))"
proof -
  obtain g' where h: "js_on_property_parse id example_property example_js = Inr g'"
    by (simp add: js_on_property_parse_def append_to_def example_defs topic_fragment_def)
  from property_enum_fragment [OF h] show ?thesis
    using h by (auto simp: example_defs json_opt_def)
qed

subsection \<open>Element trees and the effect of the emitters\<close>

lemma elem_at_add_child_same:
  "elem_at p t = Some e \<Longrightarrow>
   elem_at p (add_child p x t) = Some (Element (tag e) (attrib e) (content e) (children e @ [x]))"
  by (induction p arbitrary: t) (auto split: if_splits)

lemma elem_at_add_child_new:
  "elem_at p t = Some e \<Longrightarrow> elem_at (p @ [length (children e)]) (add_child p x t) = Some x"
  by (induction p arbitrary: t) (auto split: if_splits)

lemma elem_at_add_child_keeps:
  "elem_at p t = Some e \<Longrightarrow>
   \<exists>e'. elem_at p (add_child q x t) = Some e' \<and> tag e' = tag e \<and> attrib e' = attrib e \<and>
        content e' = content e \<and> length (children e) \<le> length (children e')"
proof (induction p arbitrary: q t)
  case Nil
  then show ?case by (cases q) auto
next
  case (Cons i p)
  then have i: "i < length (children t)" and e: "elem_at p (children t ! i) = Some e"
    by (auto split: if_splits)
  show ?case
  proof (cases q)
    case Nil
    with i e show ?thesis by (auto simp: nth_append)
  next
    case (Cons j q')
    show ?thesis
    proof (cases "i = j")
      case True
      from Cons.IH [OF e, of q'] show ?thesis using i Cons True by auto
    next
      case False
      with i e Cons show ?thesis by auto
    qed
  qed
qed

lemma append_element_Inr:
  "append_element p x g = Inr r \<longleftrightarrow>
     (\<exists>doc e. mmap g = Some doc \<and> elem_at p doc = Some e \<and>
        r = (p @ [length (children e)], g\<lparr>mmap := Some (add_child p x doc)\<rparr>))"
  by (auto simp: append_element_def split: option.splits)

lemma emit_notes_at_Inr:
  "emit_notes_at fs p notes g = Inr g' \<longleftrightarrow>
     (\<exists>doc e h. mmap g = Some doc \<and> elem_at p doc = Some e \<and> fs (notes_html notes) = Some h \<and>
        g' = g\<lparr>mmap := Some (add_child (p @ [length (children e)]) h
                 (add_child p (Element ''richcontent'' [(''TYPE'', ''NOTE'')] [] []) doc))\<rparr>)"
  by (auto simp: emit_notes_at_def sub_element_def append_element_Inr and_then_eq_Inr
        elem_at_add_child_new split: option.splits)

lemma emit_font_Inr:
  "emit_font owner cfg g = Inr g' \<longleftrightarrow>
     (\<exists>node doc e. nodes g (o_ident owner) = Some node \<and> mmap g = Some doc \<and>
        elem_at node doc = Some e \<and>
        g' = g\<lparr>mmap := Some (add_child node
                (Element ''font'' [(''BOLD'', str_bool (font_bold cfg)), (''NAME'', font_name cfg),
                   (''SIZE'', str_nat (font_size cfg))] [] []) doc)\<rparr>)"
  by (auto simp: emit_font_def sub_element_def append_element_Inr and_then_eq_Inr
        split: option.splits)

lemma emit_notes_Inr:
  "emit_notes fs owner g = Inr g' \<longleftrightarrow>
     (\<exists>p. nodes g (o_ident owner) = Some p \<and> emit_notes_at fs p (get_notes owner) g = Inr g')"
  by (auto simp: emit_notes_def split: option.splits)

lemma emit_node_Inr:
  "emit_node fs parent owner txt sty g = Inr g' \<longleftrightarrow>
     (\<exists>cfg pe doc e h.
        get_section (o_type_key owner) = Some cfg \<and>
        (case parent of PElement e \<Rightarrow> Some e | PNode n \<Rightarrow> nodes g n) = Some pe \<and>
        mmap g = Some doc \<and> elem_at pe doc = Some e \<and>
        fs (notes_html (get_notes owner)) = Some h \<and>
        g' = g\<lparr>nodes := (nodes g)(o_ident owner \<mapsto> pe @ [length (children e)]),
               mmap := Some (add_child (pe @ [length (children e), 1]) h
                 (add_child (pe @ [length (children e)])
                    (Element ''richcontent'' [(''TYPE'', ''NOTE'')] [] [])
                 (add_child (pe @ [length (children e)])
                    (Element ''font'' [(''BOLD'', str_bool (font_bold cfg)), (''NAME'', font_name cfg),
                      (''SIZE'', str_nat (font_size cfg))] [] [])
                 (add_child pe (Element ''node'' (node_atts cfg owner txt sty) [] []) doc))))\<rparr>)"
  apply (simp add: emit_node_def sub_element_def and_then_eq_Inr append_element_Inr
      emit_font_Inr emit_notes_Inr emit_notes_at_Inr split: option.splits)
  apply (auto simp: elem_at_add_child_new elem_at_add_child_same)
  done

subsection \<open>Running the Tree Form generator on a filled cache\<close>

lemma those_map_mono:
  "those (map f xs) = Some ys \<Longrightarrow> (\<And>x y. f x = Some y \<Longrightarrow> f' x = Some y) \<Longrightarrow>
   those (map f' xs) = Some ys"
  by (induction xs arbitrary: ys) (auto split: option.splits)

lemma map_le_Some: "m \<subseteq>\<^sub>m m' \<Longrightarrow> m k = Some v \<Longrightarrow> m' k = Some v"
  by (metis domI map_le_def)

lemma map_le_upd: "m \<subseteq>\<^sub>m m' \<Longrightarrow> m(k \<mapsto> v) \<subseteq>\<^sub>m m'(k \<mapsto> v)"
  by (auto simp: map_le_def)

lemma append_to_mono:
  assumes "append_to key field objs g = Inr t" "js_le g g'"
  shows "\<exists>t'. append_to key field objs g' = Inr t' \<and> js_le t t'"
proof -
  from assms(1) obtain frag xs where
    f: "maps g key = Some frag" "map_of frag field = Some (JList xs)"
    and t: "t = g\<lparr>maps := (maps g)(key \<mapsto> od_set field (JList (xs @ objs)) frag)\<rparr>"
    by (auto simp: append_to_Inr)
  from f(1) assms(2) have "maps g' key = Some frag"
    by (auto simp: js_le_def dest: map_le_Some)
  with f(2) have "append_to key field objs g' =
      Inr (g'\<lparr>maps := (maps g')(key \<mapsto> od_set field (JList (xs @ objs)) frag)\<rparr>)"
    by (simp add: append_to_def)
  with t assms(2) show ?thesis by (auto simp: js_le_def map_le_upd)
qed

lemma js_handle_mono:
  assumes "js_handle gl ev g = Inr t" "js_le g g'"
  shows "\<exists>t'. js_handle gl ev g' = Inr t' \<and> js_le t t'"
proof (cases ev)
  case (RootParse r)
  with assms show ?thesis by (auto simp: js_on_root_parse_def js_le_def map_le_upd)
next
  case (RootParsed r)
  from assms(2) have root: "js_root g' = js_root g" and le: "maps g \<subseteq>\<^sub>m maps g'"
    by (auto simp: js_le_def)
  from assms(1) RootParsed obtain objs where
    objs: "those (map (\<lambda>i. maps g (t_ident i)) (t_sub_topics (js_root g))) = Some objs"
    and rest: "(if objs = [] then Inr g else append_to (t_ident r) ''subTopics'' (map JObj objs) g) = Inr t"
    by (auto simp: js_on_root_parsed_def split: option.splits)
  have "those (map (\<lambda>i. maps g' (t_ident i)) (t_sub_topics (js_root g))) = Some objs"
    using objs le by (induction "t_sub_topics (js_root g)" arbitrary: objs)
      (auto split: option.splits dest: map_le_Some intro: those_map_mono)
  then have objs': "those (map (\<lambda>i. maps g' (t_ident i)) (t_sub_topics (js_root g'))) = Some objs"
    by (simp add: root)
  show ?thesis
  proof (cases "objs = []")
    case True
    with rest objs' assms(2) RootParsed show ?thesis by (auto simp: js_on_root_parsed_def)
  next
    case False
    with rest have "append_to (t_ident r) ''subTopics'' (map JObj objs) g = Inr t" by simp
    from append_to_mono [OF this assms(2)] False objs' RootParsed show ?thesis
      by (auto simp: js_on_root_parsed_def)
  qed
next
  case (PropertyParse p)
  with assms append_to_mono show ?thesis by (auto simp: js_on_property_parse_def)
qed (use assms in \<open>auto simp: js_on_topic_parse_def js_le_def map_le_upd\<close>)

lemma js_run_mono:
  "run_events (js_handle gl) evs g = Inr t \<Longrightarrow> js_le g g' \<Longrightarrow>
   \<exists>t'. run_events (js_handle gl) evs g' = Inr t' \<and> js_le t t'"
proof (induction evs arbitrary: g g')
  case Nil
  then show ?case by auto
next
  case (Cons ev evs)
  from Cons.prems(1) obtain u where u: "js_handle gl ev g = Inr u"
    and r: "run_events (js_handle gl) evs u = Inr t"
    by (auto simp: and_then_eq_Inr)
  from js_handle_mono [OF u Cons.prems(2)] obtain u' where
    u': "js_handle gl ev g' = Inr u'" "js_le u u'" by blast
  from Cons.IH [OF r u'(2)] u'(1) show ?case by auto
qed

lemma js_output_mono:
  "js_get_output dumps template t = Inr out \<Longrightarrow> js_le t t' \<Longrightarrow>
   js_get_output dumps template t' = Inr out"
  by (auto simp: js_get_output_def js_le_def split: option.splits dest: map_le_Some)

lemma js_root_handle: "js_handle gl ev g = Inr t \<Longrightarrow> js_root t = js_root g"
  by (cases ev)
    (auto simp: js_on_root_parse_def js_on_topic_parse_def js_on_property_parse_def
       js_on_root_parsed_def append_to_Inr split: option.splits if_splits)

lemma js_root_run: "run_events (js_handle gl) evs g = Inr t \<Longrightarrow> js_root t = js_root g"
  by (induction evs arbitrary: g) (auto simp: and_then_eq_Inr dest: js_root_handle)

lemma js_init_le: "run_events (js_handle gl) evs (js_init root) = Inr g \<Longrightarrow> js_le (js_init root) g"
  by (auto simp: js_le_def js_init_def dest: js_root_run)

subsection \<open>Running the Graph Form generator on a filled cache\<close>

lemma mm_le_set_mmap: "mm_le g g' \<Longrightarrow> mm_le (g\<lparr>mmap := d\<rparr>) (g'\<lparr>mmap := d\<rparr>)"
  by (simp add: mm_le_def)

lemma mm_le_set_nodes:
  "mm_le g g' \<Longrightarrow> mm_le (g\<lparr>nodes := (nodes g)(k \<mapsto> p)\<rparr>) (g'\<lparr>nodes := (nodes g')(k \<mapsto> p)\<rparr>)"
  by (simp add: mm_le_def map_le_upd)

lemma sub_element_mono:
  assumes "sub_element p tg atts g = Inr (q, t)" "mm_le g g'"
  shows "\<exists>t'. sub_element p tg atts g' = Inr (q, t') \<and> mm_le t t'"
  using assms by (auto simp: sub_element_def append_element_Inr mm_le_def)

lemma emit_notes_at_mono:
  assumes "emit_notes_at fs p notes g = Inr t" "mm_le g g'"
  shows "\<exists>t'. emit_notes_at fs p notes g' = Inr t' \<and> mm_le t t'"
  using assms by (auto simp: emit_notes_at_Inr mm_le_def)

lemma emit_notes_mono:
  assumes "emit_notes fs owner g = Inr t" "mm_le g g'"
  shows "\<exists>t'. emit_notes fs owner g' = Inr t' \<and> mm_le t t'"
proof -
  from assms(1) obtain p where p: "nodes g (o_ident owner) = Some p"
    and e: "emit_notes_at fs p (get_notes owner) g = Inr t"
    by (auto simp: emit_notes_Inr)
  from p assms(2) have "nodes g' (o_ident owner) = Some p"
    by (auto simp: mm_le_def dest: map_le_Some)
  with emit_notes_at_mono [OF e assms(2)] show ?thesis by (auto simp: emit_notes_Inr)
qed

lemma emit_node_mono:
  assumes "emit_node fs parent owner txt sty g = Inr t" "mm_le g g'"
  shows "\<exists>t'. emit_node fs parent owner txt sty g' = Inr t' \<and> mm_le t t'"
proof -
  from assms(1) obtain cfg pe doc e h where
    c: "get_section (o_type_key owner) = Some cfg"
    and pe: "(case parent of PElement e \<Rightarrow> Some e | PNode n \<Rightarrow> nodes g n) = Some pe"
    and d: "mmap g = Some doc" "elem_at pe doc = Some e"
    and h: "fs (notes_html (get_notes owner)) = Some h"
    and t: "t = g\<lparr>nodes := (nodes g)(o_ident owner \<mapsto> pe @ [length (children e)]),
               mmap := Some (add_child (pe @ [length (children e), 1]) h
                 (add_child (pe @ [length (children e)])
                    (Element ''richcontent'' [(''TYPE'', ''NOTE'')] [] [])
                 (add_child (pe @ [length (children e)])
                    (Element ''font'' [(''BOLD'', str_bool (font_bold cfg)), (''NAME'', font_name cfg),
                      (''SIZE'', str_nat (font_size cfg))] [] [])
                 (add_child pe (Element ''node'' (node_atts cfg owner txt sty) [] []) doc))))\<rparr>"
    unfolding emit_node_Inr by blast
  from pe assms(2) have pe': "(case parent of PElement e \<Rightarrow> Some e | PNode n \<Rightarrow> nodes g' n) = Some pe"
    by (cases parent) (auto simp: mm_le_def dest: map_le_Some)
  from d assms(2) have d': "mmap g' = Some doc" by (simp add: mm_le_def)
  let ?t' = "g'\<lparr>nodes := (nodes g')(o_ident owner \<mapsto> pe @ [length (children e)]),
               mmap := mmap t\<rparr>"
  have "emit_node fs parent owner txt sty g' = Inr ?t'"
    unfolding emit_node_Inr using c pe' d' d(2) h t by auto
  moreover have "mm_le t ?t'"
    using assms(2) t by (simp add: mm_le_def map_le_upd)
  ultimately show ?thesis by blast
qed

lemma emit_changes_mono:
  "emit_changes fs p hist g = Inr t \<Longrightarrow> mm_le g g' \<Longrightarrow>
   \<exists>t'. emit_changes fs p hist g' = Inr t' \<and> mm_le t t'"
proof (induction hist arbitrary: g g')
  case Nil
  then show ?case by auto
next
  case (Cons c hist)
  obtain version date person comment where c: "c = (version, date, person, comment)"
    by (cases c) auto
  from Cons.prems(1) c obtain node g1 g2 where
    s: "sub_element p ''node'' [(''STYLE'', ''bubble''), (''TEXT'', version)] g = Inr (node, g1)"
    and n: "emit_notes_element fs node
               [(''Version'', version), (''Date'', date), (''Person'', person),
                (''Comment'', comment)] g1 = Inr g2"
    and r: "emit_changes fs p hist g2 = Inr t"
    by (auto simp: and_then_eq_Inr)
  from sub_element_mono [OF s Cons.prems(2)] obtain g1' where
    s': "sub_element p ''node'' [(''STYLE'', ''bubble''), (''TEXT'', version)] g' = Inr (node, g1')"
    and l1: "mm_le g1 g1'" by blast
  from emit_notes_at_mono [OF n [unfolded emit_notes_element_def] l1] obtain g2' where
    n': "emit_notes_element fs node
               [(''Version'', version), (''Date'', date), (''Person'', person),
                (''Comment'', comment)] g1' = Inr g2'"
    and l2: "mm_le g2 g2'" by (auto simp: emit_notes_element_def)
  from Cons.IH [OF r l2] s' n' c show ?case by auto
qed

lemma emit_sections_mono:
  "emit_sections fs p secs g = Inr t \<Longrightarrow> mm_le g g' \<Longrightarrow>
   \<exists>t'. emit_sections fs p secs g' = Inr t' \<and> mm_le t t'"
proof (induction secs arbitrary: g g')
  case Nil
  then show ?case by auto
next
  case (Cons sec secs)
  from Cons.prems(1) obtain cfg node g1 g2 where
    c: "get_section sec = Some cfg"
    and s: "sub_element p ''node''
               [(''BACKGROUND_COLOR'', bg_color cfg), (''COLOR'', font_color cfg),
                (''STYLE'', ''bubble''), (''TEXT'', sec)] g = Inr (node, g1)"
    and n: "emit_notes_element fs node [(''Description'', cfg_description cfg)] g1 = Inr g2"
    and r: "emit_sections fs p secs g2 = Inr t"
    by (auto simp: and_then_eq_Inr split: option.splits)
  from sub_element_mono [OF s Cons.prems(2)] obtain g1' where
    s': "sub_element p ''node''
               [(''BACKGROUND_COLOR'', bg_color cfg), (''COLOR'', font_color cfg),
                (''STYLE'', ''bubble''), (''TEXT'', sec)] g' = Inr (node, g1')"
    and l1: "mm_le g1 g1'" by blast
  from emit_notes_at_mono [OF n [unfolded emit_notes_element_def] l1] obtain g2' where
    n': "emit_notes_element fs node [(''Description'', cfg_description cfg)] g1' = Inr g2'"
    and l2: "mm_le g2 g2'" by (auto simp: emit_notes_element_def)
  from Cons.IH [OF r l2] s' n' c show ?case by auto
qed

lemma emit_change_history_mono:
  assumes "emit_change_history fs root g = Inr t" "mm_le g g'"
  shows "\<exists>t'. emit_change_history fs root g' = Inr t' \<and> mm_le t t'"
proof -
  from assms(1) obtain rn root_node g1 where
    rn: "nodes g (t_ident root) = Some rn"
    and s: "sub_element rn ''node''
               [(''FOLDED'', ''true''), (''STYLE'', ''bubble''), (''TEXT'', ''CHANGE HISTORY''),
                (''POSITION'', ''left'')] g = Inr (root_node, g1)"
    and r: "emit_changes fs root_node (t_change_history root) g1 = Inr t"
    by (auto simp: emit_change_history_def and_then_eq_Inr split: option.splits)
  from rn assms(2) have rn': "nodes g' (t_ident root) = Some rn"
    by (auto simp: mm_le_def dest: map_le_Some)
  from sub_element_mono [OF s assms(2)] obtain g1' where
    s': "sub_element rn ''node''
               [(''FOLDED'', ''true''), (''STYLE'', ''bubble''), (''TEXT'', ''CHANGE HISTORY''),
                (''POSITION'', ''left'')] g' = Inr (root_node, g1')"
    and l1: "mm_le g1 g1'" by blast
  from emit_changes_mono [OF r l1] rn' s' show ?thesis
    by (auto simp: emit_change_history_def)
qed

lemma emit_legend_mono:
  assumes "emit_legend fs root g = Inr t" "mm_le g g'"
  shows "\<exists>t'. emit_legend fs root g' = Inr t' \<and> mm_le t t'"
proof -
  from assms(1) obtain rn root_node g1 where
    rn: "nodes g (t_ident root) = Some rn"
    and s: "sub_element rn ''node''
               [(''FOLDED'', ''true''), (''STYLE'', ''bubble''), (''TEXT'', ''LEGEND''),
                (''POSITION'', ''left'')] g = Inr (root_node, g1)"
    and r: "emit_sections fs root_node (map fst SECTIONS) g1 = Inr t"
    by (auto simp: emit_legend_def and_then_eq_Inr split: option.splits)
  from rn assms(2) have rn': "nodes g' (t_ident root) = Some rn"
    by (auto simp: mm_le_def dest: map_le_Some)
  from sub_element_mono [OF s assms(2)] obtain g1' where
    s': "sub_element rn ''node''
               [(''FOLDED'', ''true''), (''STYLE'', ''bubble''), (''TEXT'', ''LEGEND''),
                (''POSITION'', ''left'')] g' = Inr (root_node, g1')"
    and l1: "mm_le g1 g1'" by blast
  from emit_sections_mono [OF r l1] rn' s' show ?thesis
    by (auto simp: emit_legend_def)
qed

lemma mm_on_root_parse_mono:
  assumes "mm_on_root_parse fs root g = Inr t" "mm_le g g'"
  shows "\<exists>t'. mm_on_root_parse fs root g' = Inr t' \<and> mm_le t t'"
proof -
  from assms(1) obtain g1 g2 where
    a: "emit_node fs (PElement []) (OTopic root) None ''fork''
          (g\<lparr>mmap := Some (Element ''map'' [] [] [])\<rparr>) = Inr g1"
    and b: "emit_change_history fs root g1 = Inr g2"
    and c: "emit_legend fs root g2 = Inr t"
    by (auto simp: mm_on_root_parse_def and_then_eq_Inr)
  from emit_node_mono [OF a mm_le_set_mmap [OF assms(2)]] obtain g1' where
    a': "emit_node fs (PElement []) (OTopic root) None ''fork''
          (g'\<lparr>mmap := Some (Element ''map'' [] [] [])\<rparr>) = Inr g1'"
    and l1: "mm_le g1 g1'" by blast
  from emit_change_history_mono [OF b l1] obtain g2' where
    b': "emit_change_history fs root g1' = Inr g2'" and l2: "mm_le g2 g2'" by blast
  from emit_legend_mono [OF c l2] a' b' show ?thesis
    by (auto simp: mm_on_root_parse_def)
qed

lemma mm_handle_mono:
  assumes "mm_handle fs ev g = Inr t" "mm_le g g'"
  shows "\<exists>t'. mm_handle fs ev g' = Inr t' \<and> mm_le t t'"
proof -
  have root: "mm_root g' = mm_root g" using assms(2) by (simp add: mm_le_def)
  show ?thesis
  proof (cases ev)
    case (RootParse r)
    with assms mm_on_root_parse_mono show ?thesis by auto
  next
    case (RootParsed r)
    with assms show ?thesis by auto
  next
    case (GridParse x)
    with assms emit_node_mono show ?thesis by (auto simp: on_grid_parse_def root)
  next
    case (KeypropsParse x)
    with assms emit_node_mono show ?thesis by (auto simp: on_keyprops_parse_def root)
  next
    case (ProcessParse x)
    with assms(1) obtain g1 where
      a: "emit_node fs (PNode (t_ident (mm_root g))) (OTopic x) None ''bubble'' g = Inr g1"
      and b: "emit_notes fs (OTopic x) g1 = Inr t"
      by (auto simp: on_process_parse_def and_then_eq_Inr)
    from emit_node_mono [OF a assms(2)] obtain g1' where
      a': "emit_node fs (PNode (t_ident (mm_root g))) (OTopic x) None ''bubble'' g' = Inr g1'"
      and l1: "mm_le g1 g1'" by blast
    from emit_notes_mono [OF b l1] a' ProcessParse show ?thesis
      by (auto simp: on_process_parse_def root)
  next
    case (SubprocessParse x)
    with assms emit_node_mono show ?thesis
      by (auto simp: on_subprocess_parse_def split: option.splits)
  next
    case (PropertySetParse x)
    with assms emit_node_mono show ?thesis
      by (auto simp: on_property_set_parse_def split: if_splits)
  next
    case (PropertyParse x)
    show ?thesis
    proof (cases "p_was_injected x")
      case True
      with assms PropertyParse show ?thesis by (auto simp: mm_on_property_parse_def)
    next
      case False
      with assms(1) PropertyParse obtain g1 where
        a: "emit_node fs (PNode (p_owner x)) (OProperty x) None ''bubble'' g = Inr g1"
        and b: "emit_notes fs (OProperty x) g1 = Inr t"
        by (auto simp: mm_on_property_parse_def and_then_eq_Inr)
      from emit_node_mono [OF a assms(2)] obtain g1' where
        a': "emit_node fs (PNode (p_owner x)) (OProperty x) None ''bubble'' g' = Inr g1'"
        and l1: "mm_le g1 g1'" by blast
      from emit_notes_mono [OF b l1] a' PropertyParse False show ?thesis
        by (auto simp: mm_on_property_parse_def)
    qed
  next
    case (EnumChoiceParse x)
    with assms emit_node_mono show ?thesis by (auto simp: on_enum_choice_parse_def)
  qed
qed

lemma mm_run_mono:
  "run_events (mm_handle fs) evs g = Inr t \<Longrightarrow> mm_le g g' \<Longrightarrow>
   \<exists>t'. run_events (mm_handle fs) evs g' = Inr t' \<and> mm_le t t'"
proof (induction evs arbitrary: g g')
  case Nil
  then show ?case by auto
next
  case (Cons ev evs)
  from Cons.prems(1) obtain u where u: "mm_handle fs ev g = Inr u"
    and r: "run_events (mm_handle fs) evs u = Inr t"
    by (auto simp: and_then_eq_Inr)
  from mm_handle_mono [OF u Cons.prems(2)] obtain u' where
    u': "mm_handle fs ev g' = Inr u'" "mm_le u u'" by blast
  from Cons.IH [OF r u'(2)] u'(1) show ?case by auto
qed

lemma mm_output_mono:
  "mm_get_output tostring t = Inr out \<Longrightarrow> mm_le t t' \<Longrightarrow> mm_get_output tostring t' = Inr out"
  by (auto simp: mm_get_output_def mm_le_def split: option.splits)

lemma mm_root_emit_node: "emit_node fs parent owner txt sty g = Inr t \<Longrightarrow> mm_root t = mm_root g"
  by (auto simp: emit_node_Inr)

lemma mm_root_emit_notes: "emit_notes fs owner g = Inr t \<Longrightarrow> mm_root t = mm_root g"
  by (auto simp: emit_notes_Inr emit_notes_at_Inr)

lemma mm_root_emit_changes: "emit_changes fs p hist g = Inr t \<Longrightarrow> mm_root t = mm_root g"
  by (induction hist arbitrary: g)
    (auto simp: and_then_eq_Inr sub_element_def append_element_Inr emit_notes_element_def
       emit_notes_at_Inr)

lemma mm_root_emit_sections: "emit_sections fs p secs g = Inr t \<Longrightarrow> mm_root t = mm_root g"
  by (induction secs arbitrary: g)
    (auto simp: and_then_eq_Inr sub_element_def append_element_Inr emit_notes_element_def
       emit_notes_at_Inr split: option.splits)

lemma mm_root_handle: "mm_handle fs ev g = Inr t \<Longrightarrow> mm_root t = mm_root g"
  by (cases ev)
    (auto simp: mm_on_root_parse_def on_grid_parse_def on_keyprops_parse_def
       on_process_parse_def on_subprocess_parse_def on_property_set_parse_def
       mm_on_property_parse_def on_enum_choice_parse_def emit_change_history_def
       emit_legend_def and_then_eq_Inr sub_element_def append_element_Inr
       split: option.splits if_splits
       dest!: mm_root_emit_node mm_root_emit_notes mm_root_emit_changes mm_root_emit_sections)

lemma mm_root_run: "run_events (mm_handle fs) evs g = Inr t \<Longrightarrow> mm_root t = mm_root g"
  by (induction evs arbitrary: g) (auto simp: and_then_eq_Inr dest: mm_root_handle)

lemma mm_init_le:
  "run_events (mm_handle fs) evs (mm_init root) = Inr g \<Longrightarrow> mm_le (mm_init root) g"
  by (auto simp: mm_le_def mm_init_def dest: mm_root_run)

subsection \<open>The loops over change history and sections\<close>

lemma elem_at_shape [simp]:
  "elem_at [0, length pre] (Element mt ma mc [Element rt ra rc (pre @ [c])]) = Some c"
  by simp

lemma elem_at_shape2 [simp]:
  "elem_at [0, length pre, length cs]
     (Element mt ma mc [Element rt ra rc (pre @ [Element ct ca cc (cs @ [x])])]) = Some x"
  by simp

lemma add_child_shape [simp]:
  "add_child [0, length pre] x (Element mt ma mc [Element rt ra rc (pre @ [Element ct ca cc cs])])
     = Element mt ma mc [Element rt ra rc (pre @ [Element ct ca cc (cs @ [x])])]"
  by simp

lemma add_child_shape2 [simp]:
  "add_child [0, length pre, length cs] y
     (Element mt ma mc [Element rt ra rc (pre @ [Element ct ca cc (cs @ [Element xt xa xc xs])])])
     = Element mt ma mc
         [Element rt ra rc (pre @ [Element ct ca cc (cs @ [Element xt xa xc (xs @ [y])])])]"
  by simp

lemma add_child_shape3 [simp]:
  "add_child [0, length pre, length cs, length xs] z
     (Element mt ma mc [Element rt ra rc (pre @ [Element ct ca cc
        (cs @ [Element xt xa xc (xs @ [Element yt ya yc ys])])])])
     = Element mt ma mc [Element rt ra rc (pre @ [Element ct ca cc
        (cs @ [Element xt xa xc (xs @ [Element yt ya yc (ys @ [z])])])])]"
  by simp

lemma emit_notes_at_shape:
  assumes "mmap g = Some (Element mt ma mc [Element rt ra rc (pre @ [Element ct ca cc
              (cs @ [Element xt xa xc []])])])"
  shows "emit_notes_at fs [0, length pre, length cs] notes g = Inr g' \<longleftrightarrow>
     (fs (notes_html notes) \<noteq> None \<and>
      g' = g\<lparr>mmap := Some (Element mt ma mc [Element rt ra rc (pre @ [Element ct ca cc
              (cs @ [Element xt xa xc [note_block fs notes]])])])\<rparr>)"
proof -
  have e: "elem_at [0, length pre, length cs] (Element mt ma mc [Element rt ra rc (pre @ [Element ct ca cc
              (cs @ [Element xt xa xc []])])]) = Some (Element xt xa xc [])"
    by simp
  have a: "add_child [0, length pre, length cs, 0] h
          (Element mt ma mc [Element rt ra rc (pre @ [Element ct ca cc
              (cs @ [Element xt xa xc [Element ''richcontent'' [(''TYPE'', ''NOTE'')] [] []]])])])
      = Element mt ma mc [Element rt ra rc (pre @ [Element ct ca cc
              (cs @ [Element xt xa xc [Element ''richcontent'' [(''TYPE'', ''NOTE'')] [] [h]]])])]" for h
    using add_child_shape3 [of pre cs "[]" h mt ma mc rt ra rc ct ca cc xt xa xc
        "''richcontent''" "[(''TYPE'', ''NOTE'')]" "[]" "[]"]
    by (simp del: add_child.simps add_child_shape3)
  show ?thesis
    unfolding emit_notes_at_Inr assms
    by (auto simp: e a note_block_def simp del: add_child.simps elem_at.simps)
qed

lemma emit_changes_shape:
  "mmap g = Some (Element mt ma mc [Element rt ra rc (pre @ [Element ct ca cc cs])]) \<Longrightarrow>
   emit_changes fs [0, length pre] hist g = Inr g' \<longleftrightarrow>
     (list_all (change_ok fs) hist \<and>
      g' = g\<lparr>mmap := Some (Element mt ma mc [Element rt ra rc (pre @ [Element ct ca cc
              (cs @ map (change_node fs) hist)])])\<rparr>)"
proof (induction hist arbitrary: g cs)
  case Nil
  then show ?case by auto
next
  case (Cons c hist)
  obtain version date person comment where c: "c = (version, date, person, comment)"
    by (cases c) auto
  let ?x = "Element ''node'' [(''STYLE'', ''bubble''), (''TEXT'', version)] [] []"
  let ?doc1 = "Element mt ma mc [Element rt ra rc (pre @ [Element ct ca cc (cs @ [?x])])]"
  let ?g1 = "g\<lparr>mmap := Some ?doc1\<rparr>"
  have s: "sub_element [0, length pre] ''node'' [(''STYLE'', ''bubble''), (''TEXT'', version)] g
      = Inr ([0, length pre, length cs], ?g1)"
    using Cons.prems
    by (simp add: sub_element_def append_element_def del: add_child.simps elem_at.simps)
  let ?doc2 = "Element mt ma mc [Element rt ra rc (pre @ [Element ct ca cc
       (cs @ [change_node fs c])])]"
  have n: "emit_notes_at fs [0, length pre, length cs] (change_notes c) ?g1 = Inr g2 \<longleftrightarrow>
      (change_ok fs c \<and> g2 = g\<lparr>mmap := Some ?doc2\<rparr>)" for g2
    using emit_notes_at_shape [of ?g1 mt ma mc rt ra rc pre ct ca cc cs "''node''"
        "[(''STYLE'', ''bubble''), (''TEXT'', version)]" "[]" fs "change_notes c" g2]
    by (simp add: change_ok_def change_node_def c)
  have ih: "emit_changes fs [0, length pre] hist (g\<lparr>mmap := Some ?doc2\<rparr>) = Inr g' \<longleftrightarrow>
     (list_all (change_ok fs) hist \<and>
      g' = g\<lparr>mmap := Some (Element mt ma mc [Element rt ra rc (pre @ [Element ct ca cc
              ((cs @ [change_node fs c]) @ map (change_node fs) hist)])])\<rparr>)"
    using Cons.IH [of "g\<lparr>mmap := Some ?doc2\<rparr>" "cs @ [change_node fs c]"] by simp
  show ?case
    using s n ih
    by (auto simp: c and_then_eq_Inr emit_notes_element_def change_notes_def
          simp del: add_child.simps elem_at.simps)
qed

lemma emit_sections_shape:
  "mmap g = Some (Element mt ma mc [Element rt ra rc (pre @ [Element ct ca cc cs])]) \<Longrightarrow>
   emit_sections fs [0, length pre] secs g = Inr g' \<longleftrightarrow>
     (list_all (section_ok fs) secs \<and>
      g' = g\<lparr>mmap := Some (Element mt ma mc [Element rt ra rc (pre @ [Element ct ca cc
              (cs @ section_nodes fs secs)])])\<rparr>)"
proof (induction secs arbitrary: g cs)
  case Nil
  then show ?case by (auto simp: section_nodes_def)
next
  case (Cons sec secs)
  show ?case
  proof (cases "get_section sec")
    case None
    then show ?thesis by (simp add: section_ok_def)
  next
    case (Some cfg)
    let ?atts = "[(''BACKGROUND_COLOR'', bg_color cfg), (''COLOR'', font_color cfg),
                (''STYLE'', ''bubble''), (''TEXT'', sec)]"
    let ?x = "Element ''node'' ?atts [] []"
    let ?doc1 = "Element mt ma mc [Element rt ra rc (pre @ [Element ct ca cc (cs @ [?x])])]"
    let ?g1 = "g\<lparr>mmap := Some ?doc1\<rparr>"
    have s: "sub_element [0, length pre] ''node'' ?atts g = Inr ([0, length pre, length cs], ?g1)"
      using Cons.prems
      by (simp add: sub_element_def append_element_def del: add_child.simps elem_at.simps)
    let ?doc2 = "Element mt ma mc [Element rt ra rc (pre @ [Element ct ca cc
         (cs @ [section_node fs sec cfg])])]"
    have n: "emit_notes_at fs [0, length pre, length cs] [(''Description'', cfg_description cfg)] ?g1
          = Inr g2 \<longleftrightarrow> (section_ok fs sec \<and> g2 = g\<lparr>mmap := Some ?doc2\<rparr>)" for g2
      using emit_notes_at_shape [of ?g1 mt ma mc rt ra rc pre ct ca cc cs "''node''"
          ?atts "[]" fs "[(''Description'', cfg_description cfg)]" g2]
      by (simp add: section_ok_def section_node_def Some)
    have ih: "emit_sections fs [0, length pre] secs (g\<lparr>mmap := Some ?doc2\<rparr>) = Inr g' \<longleftrightarrow>
       (list_all (section_ok fs) secs \<and>
        g' = g\<lparr>mmap := Some (Element mt ma mc [Element rt ra rc (pre @ [Element ct ca cc
                ((cs @ [section_node fs sec cfg]) @ section_nodes fs secs)])])\<rparr>)"
      using Cons.IH [of "g\<lparr>mmap := Some ?doc2\<rparr>" "cs @ [section_node fs sec cfg]"] by simp
    show ?thesis
      using s n ih Some
      by (auto simp: and_then_eq_Inr emit_notes_element_def section_nodes_def
            simp del: add_child.simps elem_at.simps)
  qed
qed

subsection \<open>The root handler of the Graph Form\<close>

lemma emit_change_history_root:
  assumes "mmap g = Some (Element mt ma mc [Element rt ra rc [a, b]])"
    and "nodes g (t_ident root) = Some [0]"
  shows "emit_change_history fs root g = Inr g' \<longleftrightarrow>
     (list_all (change_ok fs) (t_change_history root) \<and>
      g' = g\<lparr>mmap := Some (Element mt ma mc [Element rt ra rc [a, b, history_section fs root]])\<rparr>)"
proof -
  let ?ch = "Element ''node''
       [(''FOLDED'', ''true''), (''STYLE'', ''bubble''), (''TEXT'', ''CHANGE HISTORY''),
        (''POSITION'', ''left'')] [] []"
  let ?g1 = "g\<lparr>mmap := Some (Element mt ma mc [Element rt ra rc ([a, b] @ [?ch])])\<rparr>"
  have s: "sub_element [0] ''node''
       [(''FOLDED'', ''true''), (''STYLE'', ''bubble''), (''TEXT'', ''CHANGE HISTORY''),
        (''POSITION'', ''left'')] g = Inr ([0, length [a, b]], ?g1)"
    using assms(1) by (simp add: sub_element_def append_element_def)
  have m: "mmap ?g1 = Some (Element mt ma mc [Element rt ra rc ([a, b] @ [Element ''node''
       [(''FOLDED'', ''true''), (''STYLE'', ''bubble''), (''TEXT'', ''CHANGE HISTORY''),
        (''POSITION'', ''left'')] [] []])])" by simp
  note sh = emit_changes_shape [OF m, of fs "t_change_history root" g']
  show ?thesis
    unfolding emit_change_history_def assms(2) option.case s and_then_Inr prod.case sh
    by (simp add: history_section_def)
qed

lemma emit_legend_root:
  assumes "mmap g = Some (Element mt ma mc [Element rt ra rc [a, b, c]])"
    and "nodes g (t_ident root) = Some [0]"
  shows "emit_legend fs root g = Inr g' \<longleftrightarrow>
     (list_all (section_ok fs) (map fst SECTIONS) \<and>
      g' = g\<lparr>mmap := Some (Element mt ma mc [Element rt ra rc [a, b, c, legend_section fs]])\<rparr>)"
proof -
  let ?lg = "Element ''node''
       [(''FOLDED'', ''true''), (''STYLE'', ''bubble''), (''TEXT'', ''LEGEND''),
        (''POSITION'', ''left'')] [] []"
  let ?g1 = "g\<lparr>mmap := Some (Element mt ma mc [Element rt ra rc ([a, b, c] @ [?lg])])\<rparr>"
  have s: "sub_element [0] ''node''
       [(''FOLDED'', ''true''), (''STYLE'', ''bubble''), (''TEXT'', ''LEGEND''),
        (''POSITION'', ''left'')] g = Inr ([0, length [a, b, c]], ?g1)"
    using assms(1) by (simp add: sub_element_def append_element_def)
  have m: "mmap ?g1 = Some (Element mt ma mc [Element rt ra rc ([a, b, c] @ [Element ''node''
       [(''FOLDED'', ''true''), (''STYLE'', ''bubble''), (''TEXT'', ''LEGEND''),
        (''POSITION'', ''left'')] [] []])])" by simp
  note sh = emit_sections_shape [OF m, of fs "map fst SECTIONS" g']
  show ?thesis
    unfolding emit_legend_def assms(2) option.case s and_then_Inr prod.case sh
    by (simp add: legend_section_def)
qed

lemma emit_node_root:
  "emit_node fs (PElement []) (OTopic root) None ''fork'' (g\<lparr>mmap := Some (Element ''map'' [] [] [])\<rparr>)
     = Inr g1 \<longleftrightarrow>
   (\<exists>cfg. get_section (t_type_key root) = Some cfg \<and>
      fs (notes_html (get_notes (OTopic root))) \<noteq> None \<and>
      g1 = g\<lparr>nodes := (nodes g)(t_ident root \<mapsto> [0]),
             mmap := Some (Element ''map'' [] []
               [Element ''node'' (node_atts cfg (OTopic root) None ''fork'') []
                  [font_node cfg, note_block fs (get_notes (OTopic root))]])\<rparr>)"
  unfolding emit_node_Inr
  by (auto simp: font_node_def note_block_def)

lemma mm_on_root_parse_Inr:
  "mm_on_root_parse fs root g = Inr g' \<longleftrightarrow>
     (\<exists>cfg. get_section (t_type_key root) = Some cfg \<and>
        fs (notes_html (get_notes (OTopic root))) \<noteq> None \<and>
        list_all (change_ok fs) (t_change_history root) \<and>
        list_all (section_ok fs) (map fst SECTIONS) \<and>
        g' = g\<lparr>nodes := (nodes g)(t_ident root \<mapsto> [0]),
               mmap := Some (root_document fs cfg root)\<rparr>)"
proof
  assume "mm_on_root_parse fs root g = Inr g'"
  then obtain g1 g2 where
    a: "emit_node fs (PElement []) (OTopic root) None ''fork''
          (g\<lparr>mmap := Some (Element ''map'' [] [] [])\<rparr>) = Inr g1"
    and b: "emit_change_history fs root g1 = Inr g2"
    and c: "emit_legend fs root g2 = Inr g'"
    by (auto simp: mm_on_root_parse_def and_then_eq_Inr)
  from a obtain cfg where cfg: "get_section (t_type_key root) = Some cfg"
    and h: "fs (notes_html (get_notes (OTopic root))) \<noteq> None"
    and g1: "g1 = g\<lparr>nodes := (nodes g)(t_ident root \<mapsto> [0]),
             mmap := Some (Element ''map'' [] []
               [Element ''node'' (node_atts cfg (OTopic root) None ''fork'') []
                  [font_node cfg, note_block fs (get_notes (OTopic root))]])\<rparr>"
    unfolding emit_node_root by blast
  have m1: "mmap g1 = Some (Element ''map'' [] []
               [Element ''node'' (node_atts cfg (OTopic root) None ''fork'') []
                  [font_node cfg, note_block fs (get_notes (OTopic root))]])"
    and n1: "nodes g1 (t_ident root) = Some [0]"
    by (simp_all add: g1)
  from b have ok1: "list_all (change_ok fs) (t_change_history root)"
    and g2: "g2 = g1\<lparr>mmap := Some (Element ''map'' [] []
               [Element ''node'' (node_atts cfg (OTopic root) None ''fork'') []
                  [font_node cfg, note_block fs (get_notes (OTopic root)),
                   history_section fs root]])\<rparr>"
    unfolding emit_change_history_root [OF m1 n1] by blast+
  have m2: "mmap g2 = Some (Element ''map'' [] []
               [Element ''node'' (node_atts cfg (OTopic root) None ''fork'') []
                  [font_node cfg, note_block fs (get_notes (OTopic root)),
                   history_section fs root]])"
    and n2: "nodes g2 (t_ident root) = Some [0]"
    by (simp_all add: g2 g1)
  from c have ok2: "list_all (section_ok fs) (map fst SECTIONS)"
    and g': "g' = g2\<lparr>mmap := Some (Element ''map'' [] []
               [Element ''node'' (node_atts cfg (OTopic root) None ''fork'') []
                  [font_node cfg, note_block fs (get_notes (OTopic root)),
                   history_section fs root, legend_section fs]])\<rparr>"
    unfolding emit_legend_root [OF m2 n2] by blast+
  show "\<exists>cfg. get_section (t_type_key root) = Some cfg \<and>
        fs (notes_html (get_notes (OTopic root))) \<noteq> None \<and>
        list_all (change_ok fs) (t_change_history root) \<and>
        list_all (section_ok fs) (map fst SECTIONS) \<and>
        g' = g\<lparr>nodes := (nodes g)(t_ident root \<mapsto> [0]),
               mmap := Some (root_document fs cfg root)\<rparr>"
    using cfg h ok1 ok2 by (auto simp: g' g2 g1 root_document_def)
next
  assume "\<exists>cfg. get_section (t_type_key root) = Some cfg \<and>
        fs (notes_html (get_notes (OTopic root))) \<noteq> None \<and>
        list_all (change_ok fs) (t_change_history root) \<and>
        list_all (section_ok fs) (map fst SECTIONS) \<and>
        g' = g\<lparr>nodes := (nodes g)(t_ident root \<mapsto> [0]),
               mmap := Some (root_document fs cfg root)\<rparr>"
  then obtain cfg where cfg: "get_section (t_type_key root) = Some cfg"
    and h: "fs (notes_html (get_notes (OTopic root))) \<noteq> None"
    and ok1: "list_all (change_ok fs) (t_change_history root)"
    and ok2: "list_all (section_ok fs) (map fst SECTIONS)"
    and g': "g' = g\<lparr>nodes := (nodes g)(t_ident root \<mapsto> [0]),
               mmap := Some (root_document fs cfg root)\<rparr>" by blast
  let ?g1 = "g\<lparr>nodes := (nodes g)(t_ident root \<mapsto> [0]),
             mmap := Some (Element ''map'' [] []
               [Element ''node'' (node_atts cfg (OTopic root) None ''fork'') []
                  [font_node cfg, note_block fs (get_notes (OTopic root))]])\<rparr>"
  have a: "emit_node fs (PElement []) (OTopic root) None ''fork''
          (g\<lparr>mmap := Some (Element ''map'' [] [] [])\<rparr>) = Inr ?g1"
    unfolding emit_node_root using cfg h by auto
  have m1: "mmap ?g1 = Some (Element ''map'' [] []
               [Element ''node'' (node_atts cfg (OTopic root) None ''fork'') []
                  [font_node cfg, note_block fs (get_notes (OTopic root))]])"
    and n1: "nodes ?g1 (t_ident root) = Some [0]"
    by simp_all
  let ?g2 = "?g1\<lparr>mmap := Some (Element ''map'' [] []
               [Element ''node'' (node_atts cfg (OTopic root) None ''fork'') []
                  [font_node cfg, note_block fs (get_notes (OTopic root)),
                   history_section fs root]])\<rparr>"
  have b: "emit_change_history fs root ?g1 = Inr ?g2"
    using emit_change_history_root [OF m1 n1] ok1 by blast
  have m2: "mmap ?g2 = Some (Element ''map'' [] []
               [Element ''node'' (node_atts cfg (OTopic root) None ''fork'') []
                  [font_node cfg, note_block fs (get_notes (OTopic root)),
                   history_section fs root]])"
    and n2: "nodes ?g2 (t_ident root) = Some [0]"
    by simp_all
  have "emit_legend fs root ?g2 = Inr (?g2\<lparr>mmap := Some (Element ''map'' [] []
               [Element ''node'' (node_atts cfg (OTopic root) None ''fork'') []
                  [font_node cfg, note_block fs (get_notes (OTopic root)),
                   history_section fs root, legend_section fs]])\<rparr>)"
    using emit_legend_root [OF m2 n2] ok2 by blast
  then have c: "emit_legend fs root ?g2 = Inr g'"
    by (simp add: g' root_document_def)
  show "mm_on_root_parse fs root g = Inr g'"
    using a b c by (simp add: mm_on_root_parse_def)
qed

subsection \<open>The sections of the root survive the rest of the run\<close>

lemma good_append: "good p \<Longrightarrow> 2 \<le> length p \<Longrightarrow> good (p @ r)"
  by (cases p rule: good.cases) auto

lemma rooted_doc_add_child:
  assumes "rooted_doc secs doc" "good p"
  shows "rooted_doc secs (add_child p x doc)"
proof -
  from assms(1) obtain rn where rn: "elem_at [0] doc = Some rn"
    and t: "take 4 (children rn) = secs" and l: "length secs = 4"
    by (auto simp: rooted_doc_def)
  from rn have d: "0 < length (children doc)" "children doc ! 0 = rn"
    by (auto split: if_splits)
  from t l have len: "4 \<le> length (children rn)" by auto
  show ?thesis
  proof (cases p rule: good.cases)
    case 1
    with assms(2) show ?thesis by simp
  next
    case (2 i)
    with assms(2) have "p = [0]" by simp
    with d t l len show ?thesis by (auto simp: rooted_doc_def)
  next
    case (3 i j r)
    with assms(2) have p: "p = 0 # j # r" and j: "4 \<le> j" by auto
    with d t l len show ?thesis by (auto simp: rooted_doc_def)
  qed
qed

lemma good_child:
  assumes "rooted_doc secs doc" "good p" "elem_at p doc = Some e"
  shows "good (p @ [length (children e)])" and "2 \<le> length (p @ [length (children e)])"
proof -
  from assms(1) obtain rn where rn: "elem_at [0] doc = Some rn"
    and t: "take 4 (children rn) = secs" and l: "length secs = 4"
    by (auto simp: rooted_doc_def)
  from t l have len: "4 \<le> length (children rn)" by auto
  show "good (p @ [length (children e)])"
  proof (cases p rule: good.cases)
    case 1
    with assms(2) show ?thesis by simp
  next
    case (2 i)
    with assms(2) have "p = [0]" by simp
    with rn assms(3) len show ?thesis by auto
  next
    case (3 i j r)
    with assms(2) show ?thesis by auto
  qed
  from assms(2) show "2 \<le> length (p @ [length (children e)])"
    by (cases p) auto
qed

lemma rooted_append_element:
  assumes "rooted secs g" "good p" "append_element p x g = Inr (q, g')"
  shows "rooted secs g' \<and> good q \<and> 2 \<le> length q \<and> nodes g' = nodes g"
proof -
  from assms(3) obtain doc e where d: "mmap g = Some doc" "elem_at p doc = Some e"
    and q: "q = p @ [length (children e)]" and g': "g' = g\<lparr>mmap := Some (add_child p x doc)\<rparr>"
    by (auto simp: append_element_Inr)
  from assms(1) d(1) have rd: "rooted_doc secs doc" by (auto simp: rooted_def)
  from rooted_doc_add_child [OF rd assms(2)] assms(1) g'
  have "rooted secs g'" by (auto simp: rooted_def)
  with good_child [OF rd assms(2) d(2)] q g' show ?thesis by auto
qed

lemma rooted_emit_notes_at:
  assumes "rooted secs g" "good p" "emit_notes_at fs p notes g = Inr g'"
  shows "rooted secs g' \<and> nodes g' = nodes g"
proof -
  from assms(3) obtain node g1 h c where
    s: "append_element p (Element ''richcontent'' [(''TYPE'', ''NOTE'')] [] []) g = Inr (node, g1)"
    and a: "append_element node h g1 = Inr (c, g')"
    by (auto simp: emit_notes_at_def sub_element_def and_then_eq_Inr split: option.splits)
  from rooted_append_element [OF assms(1,2) s]
  have r1: "rooted secs g1" "good node" "nodes g1 = nodes g" by auto
  from rooted_append_element [OF r1(1,2) a] r1(3) show ?thesis by auto
qed

lemma rooted_emit_notes:
  assumes "rooted secs g" "emit_notes fs owner g = Inr g'"
  shows "rooted secs g' \<and> nodes g' = nodes g"
proof -
  from assms(2) obtain p where p: "nodes g (o_ident owner) = Some p"
    and e: "emit_notes_at fs p (get_notes owner) g = Inr g'"
    by (auto simp: emit_notes_Inr)
  from assms(1) p have "good p" by (auto simp: rooted_def)
  from rooted_emit_notes_at [OF assms(1) this e] show ?thesis .
qed

lemma rooted_emit_node:
  assumes "rooted secs g" "emit_node fs (PNode n) owner txt sty g = Inr g'"
  shows "rooted secs g'"
proof -
  from assms(2) obtain cfg pe node g1 g2 where
    pe: "nodes g n = Some pe"
    and s: "append_element pe (Element ''node'' (node_atts cfg owner txt sty) [] []) g = Inr (node, g1)"
    and f: "emit_font owner cfg (g1\<lparr>nodes := (nodes g1)(o_ident owner \<mapsto> node)\<rparr>) = Inr g2"
    and e: "emit_notes fs owner g2 = Inr g'"
    by (auto simp: emit_node_def sub_element_def and_then_eq_Inr split: option.splits)
  from assms(1) pe have "good pe" by (auto simp: rooted_def)
  from rooted_append_element [OF assms(1) this s]
  have r1: "rooted secs g1" "good node" by auto
  let ?g1 = "g1\<lparr>nodes := (nodes g1)(o_ident owner \<mapsto> node)\<rparr>"
  from r1 have r1': "rooted secs ?g1" by (auto simp: rooted_def)
  from f obtain c where
    a: "append_element node (Element ''font'' [(''BOLD'', str_bool (font_bold cfg)),
          (''NAME'', font_name cfg), (''SIZE'', str_nat (font_size cfg))] [] []) ?g1 = Inr (c, g2)"
    by (auto simp: emit_font_def sub_element_def and_then_eq_Inr split: option.splits)
  from rooted_append_element [OF r1' r1(2) a] have "rooted secs g2" by simp
  from rooted_emit_notes [OF this e] show ?thesis by simp
qed

lemma rooted_handle:
  assumes "rooted secs g" "mm_handle fs ev g = Inr g'" "\<not> is_root_parse ev"
  shows "rooted secs g'"
proof (cases ev)
  case (RootParse r)
  with assms(3) show ?thesis by simp
next
  case (RootParsed r)
  with assms show ?thesis by simp
next
  case (GridParse x)
  with assms rooted_emit_node show ?thesis by (auto simp: on_grid_parse_def)
next
  case (KeypropsParse x)
  with assms rooted_emit_node show ?thesis by (auto simp: on_keyprops_parse_def)
next
  case (ProcessParse x)
  with assms(2) obtain g1 where
    a: "emit_node fs (PNode (t_ident (mm_root g))) (OTopic x) None ''bubble'' g = Inr g1"
    and b: "emit_notes fs (OTopic x) g1 = Inr g'"
    by (auto simp: on_process_parse_def and_then_eq_Inr)
  from rooted_emit_notes [OF rooted_emit_node [OF assms(1) a] b] show ?thesis by simp
next
  case (SubprocessParse x)
  with assms rooted_emit_node show ?thesis
    by (auto simp: on_subprocess_parse_def split: option.splits)
next
  case (PropertySetParse x)
  with assms rooted_emit_node show ?thesis
    by (auto simp: on_property_set_parse_def split: if_splits)
next
  case (PropertyParse x)
  show ?thesis
  proof (cases "p_was_injected x")
    case True
    with assms PropertyParse show ?thesis by (simp add: mm_on_property_parse_def)
  next
    case False
    with assms(2) PropertyParse obtain g1 where
      a: "emit_node fs (PNode (p_owner x)) (OProperty x) None ''bubble'' g = Inr g1"
      and b: "emit_notes fs (OProperty x) g1 = Inr g'"
      by (auto simp: mm_on_property_parse_def and_then_eq_Inr)
    from rooted_emit_notes [OF rooted_emit_node [OF assms(1) a] b] show ?thesis by simp
  qed
next
  case (EnumChoiceParse x)
  with assms rooted_emit_node show ?thesis by (auto simp: on_enum_choice_parse_def)
qed

lemma rooted_run:
  "rooted secs g \<Longrightarrow> run_events (mm_handle fs) evs g = Inr g' \<Longrightarrow>
   list_all (\<lambda>ev. \<not> is_root_parse ev) evs \<Longrightarrow> rooted secs g'"
proof (induction evs arbitrary: g)
  case Nil
  then show ?case by simp
next
  case (Cons ev evs)
  from Cons.prems(2) obtain u where u: "mm_handle fs ev g = Inr u"
    and r: "run_events (mm_handle fs) evs u = Inr g'"
    by (auto simp: and_then_eq_Inr)
  from rooted_handle [OF Cons.prems(1) u] Cons.prems(3) have "rooted secs u" by simp
  from Cons.IH [OF this r] Cons.prems(3) show ?case by simp
qed

lemma rooted_after_root:
  assumes "mm_on_root_parse fs root g = Inr g'" "nodes g = Map.empty"
  shows "\<exists>cfg. get_section (t_type_key root) = Some cfg \<and>
          rooted [font_node cfg, note_block fs (get_notes (OTopic root)),
                  history_section fs root, legend_section fs] g'"
proof -
  from assms(1) obtain cfg where cfg: "get_section (t_type_key root) = Some cfg"
    and g': "g' = g\<lparr>nodes := (nodes g)(t_ident root \<mapsto> [0]),
               mmap := Some (root_document fs cfg root)\<rparr>"
    unfolding mm_on_root_parse_Inr by blast
  have "rooted_doc [font_node cfg, note_block fs (get_notes (OTopic root)),
                  history_section fs root, legend_section fs] (root_document fs cfg root)"
    by (simp add: rooted_doc_def root_document_def)
  moreover have "\<forall>k p. nodes g' k = Some p \<longrightarrow> good p"
    by (simp add: g' assms(2))
  ultimately have "rooted [font_node cfg, note_block fs (get_notes (OTopic root)),
                  history_section fs root, legend_section fs] g'"
    by (simp add: rooted_def g')
  with cfg show ?thesis by blast
qed

subsection \<open>Change history and legend\<close>

lemmas type_key_defs = TYPE_KEY_ENUM_CHOICE_def TYPE_KEY_GRID_def TYPE_KEY_KEYPROPS_def
  TYPE_KEY_PROCESS_def TYPE_KEY_PROPERTY_def TYPE_KEY_PROPERTY_SET_def TYPE_KEY_REALM_def
  TYPE_KEY_SUBPROCESS_def

lemma sections_configured: "list_all (\<lambda>sec. get_section sec \<noteq> None) (map fst SECTIONS)"
  by (simp add: SECTIONS_def type_key_defs get_section_def CONFIG_def)


lemma rooted_sections:
  assumes "rooted [a, b, c, d] g"
  shows "\<exists>doc. mmap g = Some doc \<and> elem_at [0, 2] doc = Some c \<and> elem_at [0, 3] doc = Some d"
proof -
  from assms obtain doc rn where d: "mmap g = Some doc" "elem_at [0] doc = Some rn"
    and t: "take 4 (children rn) = [a, b, c, d]"
    by (auto simp: rooted_def rooted_doc_def)
  from t have "length (take 4 (children rn)) = 4" by simp
  then have l: "4 \<le> length (children rn)" by simp
  have "children rn ! 2 = take 4 (children rn) ! 2" "children rn ! 3 = take 4 (children rn) ! 3"
    by simp_all
  with t have "children rn ! 2 = c" "children rn ! 3 = d" by simp_all
  with d l show ?thesis by (auto split: if_splits)
qed

lemma run_after_root:
  assumes "run_events (mm_handle fs) (RootParse root # evs) (mm_init r0) = Inr g"
    and "list_all (\<lambda>ev. \<not> is_root_parse ev) evs"
  shows "\<exists>doc. mmap g = Some doc \<and> elem_at [0, 2] doc = Some (history_section fs root) \<and>
           elem_at [0, 3] doc = Some (legend_section fs) \<and>
           list_all (change_ok fs) (t_change_history root) \<and>
           list_all (section_ok fs) (map fst SECTIONS)"
proof -
  from assms(1) obtain g1 where r: "mm_on_root_parse fs root (mm_init r0) = Inr g1"
    and e: "run_events (mm_handle fs) evs g1 = Inr g"
    by (auto simp: and_then_eq_Inr)
  from rooted_after_root [OF r] obtain cfg where
    "rooted [font_node cfg, note_block fs (get_notes (OTopic root)),
             history_section fs root, legend_section fs] g1"
    by (auto simp: mm_init_def)
  from rooted_sections [OF rooted_run [OF this e assms(2)]] r show ?thesis
    unfolding mm_on_root_parse_Inr by blast
qed

lemma parsed_blocks:
  "list_all (\<lambda>x. f x \<noteq> None) xs \<Longrightarrow>
   \<exists>ys. map f xs = map Some ys \<and>
        map (\<lambda>x. F x (case f x of None \<Rightarrow> [] | Some h \<Rightarrow> [h])) xs = map2 (\<lambda>x h. F x [h]) xs ys"
proof (induction xs)
  case Nil
  then show ?case by simp
next
  case (Cons x xs)
  then obtain y ys where y: "f x = Some y" and ys: "map f xs = map Some ys"
    "map (\<lambda>x. F x (case f x of None \<Rightarrow> [] | Some h \<Rightarrow> [h])) xs = map2 (\<lambda>x h. F x [h]) xs ys"
    by auto
  have "map f (x # xs) = map Some (y # ys) \<and>
      map (\<lambda>x. F x (case f x of None \<Rightarrow> [] | Some h \<Rightarrow> [h])) (x # xs) =
        map2 (\<lambda>x h. F x [h]) (x # xs) (y # ys)"
    using y ys by simp
  then show ?case by blast
qed

lemma change_notes_text:
  "notes_html (change_notes (version, date, person, comment)) =
     [CHR 0x0A] @ ''<html>'' @ [CHR 0x0A] @ ''  <head></head>'' @ [CHR 0x0A] @ ''  <body>''
     @ [CHR 0x0A] @ ''    <dl>'' @ [CHR 0x0A] @ ''        ''
     @ ''<dt><b>Version</b></dt><dd>'' @ version @ ''</dd>''
     @ ''<dt><b>Date</b></dt><dd>'' @ date @ ''</dd>''
     @ ''<dt><b>Person</b></dt><dd>'' @ person @ ''</dd>''
     @ ''<dt><b>Comment</b></dt><dd>'' @ comment @ ''</dd>''
     @ [CHR 0x0A] @ ''    </dl>'' @ [CHR 0x0A] @ ''  </body>'' @ [CHR 0x0A] @ ''</html>''
     @ [CHR 0x0A]"
  by (simp add: notes_html_def NOTE_HTML_def NOTES_HTML_def change_notes_def)


text \<open>
  Claim C7. In every run that enters the root first and only once, the third child of the
  root's graph node is the \<^verbatim>\<open>CHANGE HISTORY\<close> section; for a root with N change-history
  entries it has exactly N children, in the order of the entries. The child of an entry
  shows its version and carries one notes block, whose content is the parse of the markup
  written out below: the four fields of the entry, titled and in the order Version, Date,
  Person, Comment, inside the definition list of the notes template.
\<close>

theorem change_history_fidelity:
  assumes "run_events (mm_handle fromstring) (RootParse root # evs) (mm_init root) = Inr g"
    and "list_all (\<lambda>ev. \<not> is_root_parse ev) evs"
  shows "\<exists>doc section parsed.
           mmap g = Some doc \<and> elem_at [0, 2] doc = Some section \<and>
           map_of (attrib section) ''TEXT'' = Some ''CHANGE HISTORY'' \<and>
           length (children section) = length (t_change_history root) \<and>
           map (\<lambda>(version, date, person, comment).
                  fromstring
                    ([CHR 0x0A] @ ''<html>'' @ [CHR 0x0A] @ ''  <head></head>'' @ [CHR 0x0A]
                     @ ''  <body>'' @ [CHR 0x0A] @ ''    <dl>'' @ [CHR 0x0A] @ ''        ''
                     @ ''<dt><b>Version</b></dt><dd>'' @ version @ ''</dd>''
                     @ ''<dt><b>Date</b></dt><dd>'' @ date @ ''</dd>''
                     @ ''<dt><b>Person</b></dt><dd>'' @ person @ ''</dd>''
                     @ ''<dt><b>Comment</b></dt><dd>'' @ comment @ ''</dd>''
                     @ [CHR 0x0A] @ ''    </dl>'' @ [CHR 0x0A] @ ''  </body>'' @ [CHR 0x0A]
                     @ ''</html>'' @ [CHR 0x0A]))
               (t_change_history root) = map Some parsed \<and>
           children section =
             map2 (\<lambda>(version, date, person, comment) note.
                    Element ''node'' [(''STYLE'', ''bubble''), (''TEXT'', version)] []
                      [Element ''richcontent'' [(''TYPE'', ''NOTE'')] [] [note]])
                  (t_change_history root) parsed"
proof -
  let ?f = "\<lambda>c. fromstring (notes_html (change_notes c))"
  let ?F = "\<lambda>c kids. Element ''node'' [(''STYLE'', ''bubble''), (''TEXT'', fst c)] []
                      [Element ''richcontent'' [(''TYPE'', ''NOTE'')] [] kids]"
  from run_after_root [OF assms] obtain doc where
    d: "mmap g = Some doc" "elem_at [0, 2] doc = Some (history_section fromstring root)"
    and ok: "list_all (change_ok fromstring) (t_change_history root)" by blast
  from ok have "list_all (\<lambda>c. ?f c \<noteq> None) (t_change_history root)"
    by (simp add: list_all_iff change_ok_def)
  from parsed_blocks [OF this, of ?F] obtain parsed where
    p: "map ?f (t_change_history root) = map Some parsed"
    and m: "map (\<lambda>c. ?F c (case ?f c of None \<Rightarrow> [] | Some h \<Rightarrow> [h])) (t_change_history root) =
        map2 (\<lambda>c h. ?F c [h]) (t_change_history root) parsed"
    by blast
  have cn: "change_node fromstring = (\<lambda>c. ?F c (case ?f c of None \<Rightarrow> [] | Some h \<Rightarrow> [h]))"
    by (simp add: change_node_def note_block_def fun_eq_iff)
  have f: "?f = (\<lambda>(version, date, person, comment).
                  fromstring
                    ([CHR 0x0A] @ ''<html>'' @ [CHR 0x0A] @ ''  <head></head>'' @ [CHR 0x0A]
                     @ ''  <body>'' @ [CHR 0x0A] @ ''    <dl>'' @ [CHR 0x0A] @ ''        ''
                     @ ''<dt><b>Version</b></dt><dd>'' @ version @ ''</dd>''
                     @ ''<dt><b>Date</b></dt><dd>'' @ date @ ''</dd>''
                     @ ''<dt><b>Person</b></dt><dd>'' @ person @ ''</dd>''
                     @ ''<dt><b>Comment</b></dt><dd>'' @ comment @ ''</dd>''
                     @ [CHR 0x0A] @ ''    </dl>'' @ [CHR 0x0A] @ ''  </body>'' @ [CHR 0x0A]
                     @ ''</html>'' @ [CHR 0x0A]))"
    unfolding fun_eq_iff
  proof
    fix c :: "string \<times> string \<times> string \<times> string"
    obtain version date person comment where c: "c = (version, date, person, comment)"
      by (cases c) auto
    show "fromstring (notes_html (change_notes c)) =
        (case c of (version, date, person, comment) \<Rightarrow>
                  fromstring
                    ([CHR 0x0A] @ ''<html>'' @ [CHR 0x0A] @ ''  <head></head>'' @ [CHR 0x0A]
                     @ ''  <body>'' @ [CHR 0x0A] @ ''    <dl>'' @ [CHR 0x0A] @ ''        ''
                     @ ''<dt><b>Version</b></dt><dd>'' @ version @ ''</dd>''
                     @ ''<dt><b>Date</b></dt><dd>'' @ date @ ''</dd>''
                     @ ''<dt><b>Person</b></dt><dd>'' @ person @ ''</dd>''
                     @ ''<dt><b>Comment</b></dt><dd>'' @ comment @ ''</dd>''
                     @ [CHR 0x0A] @ ''    </dl>'' @ [CHR 0x0A] @ ''  </body>'' @ [CHR 0x0A]
                     @ ''</html>'' @ [CHR 0x0A]))"
      unfolding c prod.case change_notes_text ..
  qed
  have F: "(\<lambda>c h. ?F c [h]) = (\<lambda>(version, date, person, comment) note.
                    Element ''node'' [(''STYLE'', ''bubble''), (''TEXT'', version)] []
                      [Element ''richcontent'' [(''TYPE'', ''NOTE'')] [] [note]])"
    by (auto simp: fun_eq_iff)
  have ch: "children (history_section fromstring root) =
      map2 (\<lambda>c h. ?F c [h]) (t_change_history root) parsed"
    using m by (simp add: history_section_def cn)
  have len: "length (children (history_section fromstring root)) = length (t_change_history root)"
    by (simp add: history_section_def)
  have tx: "map_of (attrib (history_section fromstring root)) ''TEXT'' = Some ''CHANGE HISTORY''"
    by (simp add: history_section_def)
  show ?thesis
    apply (rule exI [of _ doc], rule exI [of _ "history_section fromstring root"],
        rule exI [of _ parsed])
    using d p ch len tx unfolding f F by (simp only: simp_thms)
qed


subsection \<open>The graph node of a model node\<close>

lemma elem_at_add_child_below:
  "elem_at p t = Some e \<Longrightarrow> i < length (children e) \<Longrightarrow>
   elem_at p (add_child (p @ i # r) x t) =
     Some (Element (tag e) (attrib e) (content e) ((children e)[i := add_child r x (children e ! i)]))"
  by (induction p arbitrary: t) (auto split: if_splits)

lemma graph_node_Inr:
  "graph_node (Inr g) key = Some e \<longleftrightarrow>
     (\<exists>p doc. nodes g key = Some p \<and> mmap g = Some doc \<and> elem_at p doc = Some e)"
  by (auto simp: graph_node_def split: option.splits)

lemma emit_notes_at_adds:
  assumes "emit_notes_at fs p notes g = Inr g'" "mmap g = Some doc" "elem_at p doc = Some e"
  shows "\<exists>doc'. mmap g' = Some doc' \<and> nodes g' = nodes g \<and>
           elem_at p doc' =
             Some (Element (tag e) (attrib e) (content e) (children e @ [note_block fs notes]))"
proof -
  from assms obtain h where h: "fs (notes_html notes) = Some h"
    and g': "g' = g\<lparr>mmap := Some (add_child (p @ [length (children e)]) h
                 (add_child p (Element ''richcontent'' [(''TYPE'', ''NOTE'')] [] []) doc))\<rparr>"
    by (auto simp: emit_notes_at_Inr)
  let ?d1 = "add_child p (Element ''richcontent'' [(''TYPE'', ''NOTE'')] [] []) doc"
  have e1: "elem_at p ?d1 = Some (Element (tag e) (attrib e) (content e)
               (children e @ [Element ''richcontent'' [(''TYPE'', ''NOTE'')] [] []]))"
    by (rule elem_at_add_child_same [OF assms(3)])
  from elem_at_add_child_below [OF e1, of "length (children e)" "[]" h]
  have "elem_at p (add_child (p @ [length (children e)]) h ?d1) =
      Some (Element (tag e) (attrib e) (content e) (children e @ [note_block fs notes]))"
    by (simp add: note_block_def h)
  with g' show ?thesis by simp
qed

lemma emit_notes_adds:
  assumes "emit_notes fs owner g = Inr g'" "graph_node (Inr g) (o_ident owner) = Some e"
  shows "nodes g' = nodes g \<and>
         graph_node (Inr g') (o_ident owner) =
           Some (Element (tag e) (attrib e) (content e)
                   (children e @ [note_block fs (get_notes owner)]))"
proof -
  from assms(2) obtain p doc where p: "nodes g (o_ident owner) = Some p"
    and d: "mmap g = Some doc" "elem_at p doc = Some e"
    by (auto simp: graph_node_Inr)
  from assms(1) p have "emit_notes_at fs p (get_notes owner) g = Inr g'"
    by (simp add: emit_notes_Inr)
  from emit_notes_at_adds [OF this d] p show ?thesis
    by (auto simp: graph_node_Inr)
qed

lemma emit_node_creates:
  assumes "emit_node fs parent owner txt sty g = Inr g'"
  shows "\<exists>cfg pe. get_section (o_type_key owner) = Some cfg \<and>
           (case parent of PElement e \<Rightarrow> Some e | PNode n \<Rightarrow> nodes g n) = Some pe \<and>
           (\<exists>q. nodes g' = (nodes g)(o_ident owner \<mapsto> q)) \<and>
           mm_root g' = mm_root g \<and>
           graph_node (Inr g') (o_ident owner) =
             Some (Element ''node'' (node_atts cfg owner txt sty) []
                     [font_node cfg, note_block fs (get_notes owner)])"
proof -
  from assms obtain cfg pe doc e h where
    c: "get_section (o_type_key owner) = Some cfg"
    and pe: "(case parent of PElement e \<Rightarrow> Some e | PNode n \<Rightarrow> nodes g n) = Some pe"
    and d: "mmap g = Some doc" "elem_at pe doc = Some e"
    and h: "fs (notes_html (get_notes owner)) = Some h"
    and g': "g' = g\<lparr>nodes := (nodes g)(o_ident owner \<mapsto> pe @ [length (children e)]),
               mmap := Some (add_child (pe @ [length (children e), 1]) h
                 (add_child (pe @ [length (children e)])
                    (Element ''richcontent'' [(''TYPE'', ''NOTE'')] [] [])
                 (add_child (pe @ [length (children e)])
                    (Element ''font'' [(''BOLD'', str_bool (font_bold cfg)), (''NAME'', font_name cfg),
                      (''SIZE'', str_nat (font_size cfg))] [] [])
                 (add_child pe (Element ''node'' (node_atts cfg owner txt sty) [] []) doc))))\<rparr>"
    unfolding emit_node_Inr by blast
  let ?q = "pe @ [length (children e)]"
  let ?d1 = "add_child pe (Element ''node'' (node_atts cfg owner txt sty) [] []) doc"
  let ?d2 = "add_child ?q (font_node cfg) ?d1"
  let ?d3 = "add_child ?q (Element ''richcontent'' [(''TYPE'', ''NOTE'')] [] []) ?d2"
  have e1: "elem_at ?q ?d1 = Some (Element ''node'' (node_atts cfg owner txt sty) [] [])"
    by (rule elem_at_add_child_new [OF d(2)])
  from elem_at_add_child_same [OF e1, of "font_node cfg"]
  have e2: "elem_at ?q ?d2 = Some (Element ''node'' (node_atts cfg owner txt sty) [] [font_node cfg])"
    by simp
  from elem_at_add_child_same [OF e2, of "Element ''richcontent'' [(''TYPE'', ''NOTE'')] [] []"]
  have e3: "elem_at ?q ?d3 = Some (Element ''node'' (node_atts cfg owner txt sty) []
       [font_node cfg, Element ''richcontent'' [(''TYPE'', ''NOTE'')] [] []])"
    by simp
  from elem_at_add_child_below [OF e3, of 1 "[]" h]
  have e4: "elem_at ?q (add_child (?q @ [1]) h ?d3) =
      Some (Element ''node'' (node_atts cfg owner txt sty) []
         [font_node cfg, note_block fs (get_notes owner)])"
    by (simp add: note_block_def h)
  have "graph_node (Inr g') (o_ident owner) =
             Some (Element ''node'' (node_atts cfg owner txt sty) []
                     [font_node cfg, note_block fs (get_notes owner)])"
    using e4 by (simp add: graph_node_def g' font_node_def)
  with c pe g' show ?thesis by auto
qed

lemma emit_notes_after_emit_node:
  assumes "emit_node fs parent owner txt sty g = Inr g1"
  shows "\<exists>g2. emit_notes fs owner g1 = Inr g2"
proof -
  from emit_node_creates [OF assms] obtain e where
    "graph_node (Inr g1) (o_ident owner) = Some e" by blast
  then obtain p doc where p: "nodes g1 (o_ident owner) = Some p"
    and d: "mmap g1 = Some doc" "elem_at p doc = Some e"
    by (auto simp: graph_node_Inr)
  from assms obtain h where "fs (notes_html (get_notes owner)) = Some h"
    unfolding emit_node_Inr by blast
  with p d show ?thesis
    by (simp add: emit_notes_Inr emit_notes_at_Inr)
qed

lemma emit_node_succeeds:
  assumes "get_section (o_type_key owner) = Some cfg"
    and "(case parent of PElement e \<Rightarrow> Some e | PNode n \<Rightarrow> nodes g n) = Some pe"
    and "mmap g = Some doc" "elem_at pe doc \<noteq> None"
    and "fs (notes_html (get_notes owner)) \<noteq> None"
  shows "\<exists>g'. emit_node fs parent owner txt sty g = Inr g'"
  using assms unfolding emit_node_Inr by auto

text \<open>
  Claim C10. Whether \<^verbatim>\<open>_emit_node\<close> succeeds depends on the style record, the parent
  element and the parse of the notes only, never on the URL attribute; and the node it
  creates has the \<^verbatim>\<open>LINK\<close> attribute exactly when the model node has a URL, with the URL
  as its value.
\<close>

theorem emit_node_link:
  "((\<exists>g'. emit_node fromstring parent owner txt sty g = Inr g') \<longleftrightarrow>
      (get_section (o_type_key owner) \<noteq> None \<and>
       (\<exists>pe doc. (case parent of PElement e \<Rightarrow> Some e | PNode n \<Rightarrow> nodes g n) = Some pe \<and>
                 mmap g = Some doc \<and> elem_at pe doc \<noteq> None) \<and>
       fromstring (notes_html (get_notes owner)) \<noteq> None))
   \<and> (\<forall>g'. emit_node fromstring parent owner txt sty g = Inr g' \<longrightarrow>
         (\<exists>e. graph_node (Inr g') (o_ident owner) = Some e \<and> tag e = ''node'' \<and>
              map_of (attrib e) ''LINK'' = o_url owner))"
proof (intro conjI allI impI)
  show "(\<exists>g'. emit_node fromstring parent owner txt sty g = Inr g') \<longleftrightarrow>
      (get_section (o_type_key owner) \<noteq> None \<and>
       (\<exists>pe doc. (case parent of PElement e \<Rightarrow> Some e | PNode n \<Rightarrow> nodes g n) = Some pe \<and>
                 mmap g = Some doc \<and> elem_at pe doc \<noteq> None) \<and>
       fromstring (notes_html (get_notes owner)) \<noteq> None)"
    unfolding emit_node_Inr by auto
next
  fix g' assume "emit_node fromstring parent owner txt sty g = Inr g'"
  from emit_node_creates [OF this] obtain cfg where
    "graph_node (Inr g') (o_ident owner) =
             Some (Element ''node'' (node_atts cfg owner txt sty) []
                     [font_node cfg, note_block fromstring (get_notes owner)])" by blast
  then show "\<exists>e. graph_node (Inr g') (o_ident owner) = Some e \<and> tag e = ''node'' \<and>
              map_of (attrib e) ''LINK'' = o_url owner"
    by (auto simp: node_atts_def split: option.splits)
qed

subsection \<open>Runs on the example trees\<close>

lemma example_parses [simp]: "example_fromstring s \<noteq> None"
  by (simp add: example_fromstring_def)

lemma example_change_ok [simp]: "list_all (change_ok example_fromstring) hist"
  by (simp add: list_all_iff change_ok_def)

lemma example_section_ok [simp]: "list_all (section_ok example_fromstring) (map fst SECTIONS)"
  using sections_configured
  by (auto simp: list_all_iff section_ok_def split: option.splits)

lemma get_section_realm: "get_section ''realm'' \<noteq> None"
  by (simp add: get_section_def CONFIG_def)

lemma get_section_process: "get_section ''process'' \<noteq> None"
  by (simp add: get_section_def CONFIG_def)

lemma get_section_subprocess: "get_section ''subprocess'' \<noteq> None"
  by (simp add: get_section_def CONFIG_def)

lemma get_section_enum_choice: "get_section ''enum-choice'' \<noteq> None"
  by (simp add: get_section_def CONFIG_def)

lemma realm_root_parse:
  assumes "t_type_key root = ''realm''" "nodes g = Map.empty"
  shows "\<exists>cfg. mm_on_root_parse example_fromstring root g =
           Inr (g\<lparr>nodes := [t_ident root \<mapsto> [0]],
                  mmap := Some (root_document example_fromstring cfg root)\<rparr>)"
proof -
  from get_section_realm obtain cfg where "get_section ''realm'' = Some cfg" by auto
  with assms have "mm_on_root_parse example_fromstring root g =
           Inr (g\<lparr>nodes := [t_ident root \<mapsto> [0]],
                  mmap := Some (root_document example_fromstring cfg root)\<rparr>)"
    unfolding mm_on_root_parse_Inr by simp
  then show ?thesis by blast
qed

lemma process_after_root:
  assumes "t_type_key root = ''realm''" "t_type_key process = ''process''"
    "t_ident process \<noteq> t_ident root"
  shows "\<exists>g q. run_events (mm_handle example_fromstring) [RootParse root, ProcessParse process]
             (mm_init root) = Inr g \<and>
           nodes g = [t_ident root \<mapsto> [0], t_ident process \<mapsto> q] \<and>
           map_option (\<lambda>e. map tag (children e)) (graph_node (Inr g) (t_ident process)) =
             Some [''font'', ''richcontent'', ''richcontent'']"
proof -
  from realm_root_parse [OF assms(1), of "mm_init root"] obtain cfg where
    r: "mm_on_root_parse example_fromstring root (mm_init root) =
           Inr ((mm_init root)\<lparr>nodes := [t_ident root \<mapsto> [0]],
                  mmap := Some (root_document example_fromstring cfg root)\<rparr>)"
    (is "_ = Inr ?g1")
    by (auto simp: mm_init_def)
  from get_section_process assms(2) obtain pc where
    pc: "get_section (o_type_key (OTopic process)) = Some pc" by auto
  have d0: "(case PNode (t_ident (mm_root ?g1)) of PElement e \<Rightarrow> Some e
              | PNode n \<Rightarrow> nodes ?g1 n) = Some [0]"
    by (simp add: mm_init_def)
  have d1: "mmap ?g1 = Some (root_document example_fromstring cfg root)" by simp
  have d2: "elem_at [0] (root_document example_fromstring cfg root) \<noteq> None"
    by (simp add: root_document_def)
  from emit_node_succeeds [where fs = example_fromstring, OF pc d0 d1 d2 example_parses]
  obtain g2 where
    g2: "emit_node example_fromstring (PNode (t_ident (mm_root ?g1))) (OTopic process) None
          ''bubble'' ?g1 = Inr g2" by blast
  from emit_node_creates [OF g2] obtain c q where
    n2: "nodes g2 = (nodes ?g1)(t_ident process \<mapsto> q)"
    and e2: "graph_node (Inr g2) (o_ident (OTopic process)) =
             Some (Element ''node'' (node_atts c (OTopic process) None ''bubble'') []
                     [font_node c, note_block example_fromstring (get_notes (OTopic process))])"
    by auto
  from emit_notes_after_emit_node [OF g2] obtain g3 where
    g3: "emit_notes example_fromstring (OTopic process) g2 = Inr g3" by blast
  from emit_notes_adds [OF g3 e2] have
    n3: "nodes g3 = nodes g2"
    and e3: "graph_node (Inr g3) (t_ident process) =
        Some (Element ''node'' (node_atts c (OTopic process) None ''bubble'') []
          [font_node c, note_block example_fromstring (get_notes (OTopic process)),
           note_block example_fromstring (get_notes (OTopic process))])"
    by simp_all
  have run: "run_events (mm_handle example_fromstring) [RootParse root, ProcessParse process]
             (mm_init root) = Inr g3"
    using r g2 g3 by (simp add: on_process_parse_def)
  have n: "nodes g3 = [t_ident root \<mapsto> [0], t_ident process \<mapsto> q]"
    using n3 n2 by simp
  have t: "map_option (\<lambda>e. map tag (children e)) (graph_node (Inr g3) (t_ident process)) =
             Some [''font'', ''richcontent'', ''richcontent'']"
    by (simp add: e3 font_node_def note_block_def)
  show ?thesis
    by (rule exI [of _ g3], rule exI [of _ q]) (simp only: run n t simp_thms)
qed

text \<open>
  Claim C6 at the example tree: the graph node of a process has one font element and two
  notes blocks, since \<^verbatim>\<open>on_process_parse\<close> emits the notes again after \<^verbatim>\<open>_emit_node\<close>
  has emitted them.
\<close>

theorem process_node_has_two_notes_blocks:
  "map_option (\<lambda>e. map tag (children e))
     (graph_node
        (run_events (mm_handle example_fromstring)
           [RootParse example_root, ProcessParse example_process] (mm_init example_root)) 2)
   = Some [''font'', ''richcontent'', ''richcontent'']"
proof -
  from process_after_root [of example_root example_process] obtain g where
    "run_events (mm_handle example_fromstring) [RootParse example_root, ProcessParse example_process]
             (mm_init example_root) = Inr g"
    "map_option (\<lambda>e. map tag (children e)) (graph_node (Inr g) (t_ident example_process)) =
             Some [''font'', ''richcontent'', ''richcontent'']"
    by (auto simp: example_root_def example_process_def)
  then show ?thesis by (simp add: example_process_def)
qed

text \<open>
  Claim C3 at a tree with an injected property that has an enumeration: the property is
  suppressed, and the handler of its enum choice then finds no graph node for the
  property and raises \<^verbatim>\<open>KeyError\<close>; the subtree is not skipped.
\<close>

theorem injected_enum_choice_fails:
  "run_events (mm_handle example_fromstring)
     [RootParse example_cim_root, ProcessParse example_cim_process,
      PropertyParse example_cim_property, EnumChoiceParse example_cim_choice]
     (mm_init example_cim_root) = Inl KeyError"
proof -
  from process_after_root [of example_cim_root example_cim_process] obtain g q where
    r: "run_events (mm_handle example_fromstring)
         [RootParse example_cim_root, ProcessParse example_cim_process]
             (mm_init example_cim_root) = Inr g"
    and n: "nodes g = [t_ident example_cim_root \<mapsto> [0], t_ident example_cim_process \<mapsto> q]"
    by (auto simp: example_cim_root_def example_cim_process_def)
  from r obtain g1 where
    a: "mm_on_root_parse example_fromstring example_cim_root (mm_init example_cim_root) = Inr g1"
    and b: "on_process_parse example_fromstring example_cim_process g1 = Inr g"
    by (auto simp: and_then_eq_Inr)
  have p: "mm_on_property_parse example_fromstring example_cim_property g = Inr g"
    by (simp add: mm_on_property_parse_def example_cim_property_def)
  from n have "nodes g 9 = None"
    by (simp add: example_cim_root_def example_cim_process_def)
  with get_section_enum_choice
  have c: "on_enum_choice_parse example_fromstring example_cim_choice g = Inl KeyError"
    by (auto simp: on_enum_choice_parse_def emit_node_def example_cim_choice_def)
  show ?thesis using a b p c by simp
qed

lemma example_run:
  "\<exists>g. run_events (mm_handle example_fromstring)
          [RootParse example_root, ProcessParse example_process] (mm_init example_root) = Inr g"
  using process_after_root [of example_root example_process]
  by (auto simp: example_root_def example_process_def)

theorem change_history_fidelity_witness:
  "\<exists>g doc section.
     run_events (mm_handle example_fromstring)
       [RootParse example_root, ProcessParse example_process] (mm_init example_root) = Inr g \<and>
     mmap g = Some doc \<and> elem_at [0, 2] doc = Some section \<and>
     children section =
       [Element ''node'' [(''STYLE'', ''bubble''), (''TEXT'', ''1.0.0'')] []
          [Element ''richcontent'' [(''TYPE'', ''NOTE'')] []
             [Element ''html'' []
                ([CHR 0x0A] @ ''<html>'' @ [CHR 0x0A] @ ''  <head></head>'' @ [CHR 0x0A]
                 @ ''  <body>'' @ [CHR 0x0A] @ ''    <dl>'' @ [CHR 0x0A] @ ''        ''
                 @ ''<dt><b>Version</b></dt><dd>1.0.0</dd>''
                 @ ''<dt><b>Date</b></dt><dd>2017-01-01</dd>''
                 @ ''<dt><b>Person</b></dt><dd>me</dd>''
                 @ ''<dt><b>Comment</b></dt><dd>Initial</dd>''
                 @ [CHR 0x0A] @ ''    </dl>'' @ [CHR 0x0A] @ ''  </body>'' @ [CHR 0x0A]
                 @ ''</html>'' @ [CHR 0x0A]) []]]]"
proof -
  from example_run obtain g where
    r: "run_events (mm_handle example_fromstring)
          [RootParse example_root, ProcessParse example_process] (mm_init example_root) = Inr g"
    by blast
  have n: "list_all (\<lambda>ev. \<not> is_root_parse ev) [ProcessParse example_process]" by simp
  from change_history_fidelity [OF r n] obtain doc sec parsed where
    d: "mmap g = Some doc" "elem_at [0, 2] doc = Some sec"
    and p: "map (\<lambda>(version, date, person, comment).
                  example_fromstring
                    ([CHR 0x0A] @ ''<html>'' @ [CHR 0x0A] @ ''  <head></head>'' @ [CHR 0x0A]
                     @ ''  <body>'' @ [CHR 0x0A] @ ''    <dl>'' @ [CHR 0x0A] @ ''        ''
                     @ ''<dt><b>Version</b></dt><dd>'' @ version @ ''</dd>''
                     @ ''<dt><b>Date</b></dt><dd>'' @ date @ ''</dd>''
                     @ ''<dt><b>Person</b></dt><dd>'' @ person @ ''</dd>''
                     @ ''<dt><b>Comment</b></dt><dd>'' @ comment @ ''</dd>''
                     @ [CHR 0x0A] @ ''    </dl>'' @ [CHR 0x0A] @ ''  </body>'' @ [CHR 0x0A]
                     @ ''</html>'' @ [CHR 0x0A]))
               (t_change_history example_root) = map Some parsed"
    and c: "children sec =
             map2 (\<lambda>(version, date, person, comment) note.
                    Element ''node'' [(''STYLE'', ''bubble''), (''TEXT'', version)] []
                      [Element ''richcontent'' [(''TYPE'', ''NOTE'')] [] [note]])
                  (t_change_history example_root) parsed"
    by blast
  from p have "parsed =
      [Element ''html'' []
                ([CHR 0x0A] @ ''<html>'' @ [CHR 0x0A] @ ''  <head></head>'' @ [CHR 0x0A]
                 @ ''  <body>'' @ [CHR 0x0A] @ ''    <dl>'' @ [CHR 0x0A] @ ''        ''
                 @ ''<dt><b>Version</b></dt><dd>1.0.0</dd>''
                 @ ''<dt><b>Date</b></dt><dd>2017-01-01</dd>''
                 @ ''<dt><b>Person</b></dt><dd>me</dd>''
                 @ ''<dt><b>Comment</b></dt><dd>Initial</dd>''
                 @ [CHR 0x0A] @ ''    </dl>'' @ [CHR 0x0A] @ ''  </body>'' @ [CHR 0x0A]
                 @ ''</html>'' @ [CHR 0x0A]) []]"
    by (auto simp: example_root_def example_fromstring_def Cons_eq_map_conv)
  with c have "children sec =
       [Element ''node'' [(''STYLE'', ''bubble''), (''TEXT'', ''1.0.0'')] []
          [Element ''richcontent'' [(''TYPE'', ''NOTE'')] []
             [Element ''html'' []
                ([CHR 0x0A] @ ''<html>'' @ [CHR 0x0A] @ ''  <head></head>'' @ [CHR 0x0A]
                 @ ''  <body>'' @ [CHR 0x0A] @ ''    <dl>'' @ [CHR 0x0A] @ ''        ''
                 @ ''<dt><b>Version</b></dt><dd>1.0.0</dd>''
                 @ ''<dt><b>Date</b></dt><dd>2017-01-01</dd>''
                 @ ''<dt><b>Person</b></dt><dd>me</dd>''
                 @ ''<dt><b>Comment</b></dt><dd>Initial</dd>''
                 @ [CHR 0x0A] @ ''    </dl>'' @ [CHR 0x0A] @ ''  </body>'' @ [CHR 0x0A]
                 @ ''</html>'' @ [CHR 0x0A]) []]]]"
    by (simp add: example_root_def)
  with r d show ?thesis
    by (intro exI [of _ g] exI [of _ doc] exI [of _ sec]) (simp only: simp_thms)
qed


theorem emit_node_link_witness:
  "(\<exists>g' e. emit_node example_fromstring (PElement []) (OTopic example_process) None ''bubble''
            ((mm_init example_root)\<lparr>mmap := Some (Element ''map'' [] [] [])\<rparr>) = Inr g' \<and>
          graph_node (Inr g') 2 = Some e \<and>
          map_of (attrib e) ''LINK'' = Some ''http://example.org/dynamics'')
   \<and> (\<exists>g' e. emit_node example_fromstring (PElement []) (OTopic example_subprocess) None ''bubble''
            ((mm_init example_root)\<lparr>mmap := Some (Element ''map'' [] [] [])\<rparr>) = Inr g' \<and>
          graph_node (Inr g') 3 = Some e \<and> map_of (attrib e) ''LINK'' = None)"
proof -
  let ?g = "(mm_init example_root)\<lparr>mmap := Some (Element ''map'' [] [] [])\<rparr>"
  note a = emit_node_link [of example_fromstring "PElement []" "OTopic example_process" None
      "''bubble''" ?g]
  note b = emit_node_link [of example_fromstring "PElement []" "OTopic example_subprocess" None
      "''bubble''" ?g]
  have pa: "get_section (o_type_key (OTopic example_process)) \<noteq> None"
    using get_section_process by (simp add: example_process_def)
  have pb: "get_section (o_type_key (OTopic example_subprocess)) \<noteq> None"
    using get_section_subprocess by (simp add: example_subprocess_def)
  from a pa obtain ga where ga: "emit_node example_fromstring (PElement []) (OTopic example_process)
      None ''bubble'' ?g = Inr ga" by auto
  from b pb obtain gb where gb: "emit_node example_fromstring (PElement []) (OTopic example_subprocess)
      None ''bubble'' ?g = Inr gb" by auto
  from a ga obtain ea where "graph_node (Inr ga) (o_ident (OTopic example_process)) = Some ea"
    "map_of (attrib ea) ''LINK'' = o_url (OTopic example_process)" by blast
  moreover from b gb obtain eb where "graph_node (Inr gb) (o_ident (OTopic example_subprocess)) = Some eb"
    "map_of (attrib eb) ''LINK'' = o_url (OTopic example_subprocess)" by blast
  ultimately show ?thesis using ga gb
    by (auto simp: example_process_def example_subprocess_def)
qed

subsection \<open>Generating twice\<close>

text \<open>
  Claim C9. Generating twice gives the same text, for both generators: when a run of a
  fresh generator over the events of a tree produces an output, running the same events
  again on the generator the first run leaves behind (its caches still filled) succeeds
  and produces the same output.
\<close>

theorem generation_idempotent:
  "(run_events (js_handle get_label) evs (js_init root) = Inr g1 \<longrightarrow>
      js_get_output dumps template g1 = Inr out \<longrightarrow>
      (\<exists>g2. run_events (js_handle get_label) evs g1 = Inr g2 \<and>
            js_get_output dumps template g2 = Inr out))
   \<and> (run_events (mm_handle fromstring) evs (mm_init root) = Inr m1 \<longrightarrow>
      mm_get_output tostring m1 = Inr res \<longrightarrow>
      (\<exists>m2. run_events (mm_handle fromstring) evs m1 = Inr m2 \<and>
            mm_get_output tostring m2 = Inr res))"
proof (intro conjI impI)
  assume r: "run_events (js_handle get_label) evs (js_init root) = Inr g1"
    and o: "js_get_output dumps template g1 = Inr out"
  from js_run_mono [OF r js_init_le [OF r]] obtain g2 where
    "run_events (js_handle get_label) evs g1 = Inr g2" "js_le g1 g2" by blast
  with js_output_mono [OF o] show
    "\<exists>g2. run_events (js_handle get_label) evs g1 = Inr g2 \<and>
          js_get_output dumps template g2 = Inr out" by blast
next
  assume r: "run_events (mm_handle fromstring) evs (mm_init root) = Inr m1"
    and o: "mm_get_output tostring m1 = Inr res"
  from mm_run_mono [OF r mm_init_le [OF r]] obtain m2 where
    "run_events (mm_handle fromstring) evs m1 = Inr m2" "mm_le m1 m2" by blast
  with mm_output_mono [OF o] show
    "\<exists>m2. run_events (mm_handle fromstring) evs m1 = Inr m2 \<and>
          mm_get_output tostring m2 = Inr res" by blast
qed

lemma example_js_run:
  "\<exists>g. run_events (js_handle id) example_events (js_init example_root) = Inr g \<and>
       js_root g = example_root \<and> maps g 1 \<noteq> None"
  by (simp add: example_events_def js_on_root_parse_def js_on_topic_parse_def
        js_on_root_parsed_def append_to_def js_init_def root_fragment_def example_root_def
        example_process_def)

lemma example_mm_run:
  "\<exists>g. run_events (mm_handle example_fromstring) example_events (mm_init example_root) = Inr g \<and>
       mmap g \<noteq> None"
proof -
  from example_run obtain g where
    r: "run_events (mm_handle example_fromstring)
          [RootParse example_root, ProcessParse example_process] (mm_init example_root) = Inr g"
    by blast
  then obtain g1 where a: "mm_on_root_parse example_fromstring example_root (mm_init example_root) = Inr g1"
    and b: "on_process_parse example_fromstring example_process g1 = Inr g"
    by (auto simp: and_then_eq_Inr)
  from run_after_root [OF r] have "mmap g \<noteq> None" by auto
  with a b show ?thesis by (simp add: example_events_def)
qed

theorem generation_idempotent_witness:
  "\<exists>g1 out g2 m1 res m2.
     run_events (js_handle id) example_events (js_init example_root) = Inr g1 \<and>
     js_get_output (\<lambda>j. ''{}'') ''var x = TOPIC;'' g1 = Inr out \<and>
     run_events (js_handle id) example_events g1 = Inr g2 \<and>
     js_get_output (\<lambda>j. ''{}'') ''var x = TOPIC;'' g2 = Inr out \<and>
     run_events (mm_handle example_fromstring) example_events (mm_init example_root) = Inr m1 \<and>
     mm_get_output tag m1 = Inr res \<and>
     run_events (mm_handle example_fromstring) example_events m1 = Inr m2 \<and>
     mm_get_output tag m2 = Inr res"
proof -
  from example_js_run obtain g1 where
    g1: "run_events (js_handle id) example_events (js_init example_root) = Inr g1"
    and c: "js_root g1 = example_root" "maps g1 1 \<noteq> None" by blast
  from c obtain out where out: "js_get_output (\<lambda>j. ''{}'') ''var x = TOPIC;'' g1 = Inr out"
    by (auto simp: js_get_output_def example_root_def)
  from example_mm_run obtain m1 where
    m1: "run_events (mm_handle example_fromstring) example_events (mm_init example_root) = Inr m1"
    and d: "mmap m1 \<noteq> None" by blast
  from d obtain res where res: "mm_get_output tag m1 = Inr res"
    by (auto simp: mm_get_output_def)
  from generation_idempotent [of id example_events example_root g1 "\<lambda>j. ''{}''"
      "''var x = TOPIC;''" out example_fromstring m1 tag res] g1 out m1 res
  obtain g2 m2 where
    "run_events (js_handle id) example_events g1 = Inr g2"
    "js_get_output (\<lambda>j. ''{}'') ''var x = TOPIC;'' g2 = Inr out"
    "run_events (mm_handle example_fromstring) example_events m1 = Inr m2"
    "mm_get_output tag m2 = Inr res" by blast
  with g1 out m1 res show ?thesis
    by (intro exI [of _ g1] exI [of _ out] exI [of _ g2] exI [of _ m1] exI [of _ res]
          exI [of _ m2]) simp
qed

subsection \<open>The events of a well-formed tree\<close>









lemma collect_map_Inr: "collect (map Inr xs) = Inr xs"
  by (induction xs) auto

lemma collect_Inr: "collect rs = Inr xs \<Longrightarrow> rs = map Inr xs"
  by (induction rs arbitrary: xs) (auto split: sum.splits)


declare all_properties.simps [simp del] subprocess_tree.simps [simp del]
  walk_topic.simps [simp del]



subsection \<open>The Tree Form document of a well-formed tree\<close>



lemma visit_Nil [simp]: "visit gl [] m = m"
  by (simp add: visit_def)

lemma visit_Cons [simp]: "visit gl (t # ts) m = visit gl ts (m(t_ident t \<mapsto> topic_document gl t))"
  by (simp add: visit_def)








end
